theory Spec2Isabelle
  imports Complex_Main
begin

section \<open>Data model\<close>

text \<open>
  A chunk is the dictionary built in \<^verbatim>\<open>DocumentProcessor._chunk_content\<close>:
  \<^verbatim>\<open>{"id", "text", "metadata": {"source", "chunk_index", "processed_date", "token_count"}}\<close>.
  Python integers are unbounded, so \<open>chunk_index\<close> is an \<open>int\<close>.
\<close>

record metadata =
  source :: string
  chunk_index :: int
  processed_date :: string
  token_count :: nat

record chunk =
  chunk_id :: string
  chunk_text :: string
  meta :: metadata

text \<open>
  The exceptions that can leave the code under study. \<open>FileNotFoundError\<close> and
  \<open>ValueError\<close> are raised by \<^verbatim>\<open>process_file\<close> itself; the others stand for the
  failures of the external collaborators (text extraction, the embedding service, the
  database connection).
\<close>

datatype error =
    FileNotFoundError
  | ValueError
  | ExtractionError
  | EmbeddingServiceError
  | StoreConnectivityError

section \<open>Chunk identity\<close>

text \<open>
  \<^verbatim>\<open>f"{filename}_{index}"\<close> renders the index with Python's \<open>str\<close> on an integer:
  decimal digits, most significant first, with a leading minus sign for negative values.
\<close>

definition digit_char :: "nat \<Rightarrow> char" where
  "digit_char d = ''0123456789'' ! d"

function str_nat :: "nat \<Rightarrow> string" where
  "str_nat n = (if n < 10 then [digit_char n] else str_nat (n div 10) @ [digit_char (n mod 10)])"
  by pat_completeness auto
termination
  by (relation "measure (\<lambda>n. n)") auto

declare str_nat.simps [simp del]

definition str_int :: "int \<Rightarrow> string" where
  "str_int i = (if i < 0 then CHR ''-'' # str_nat (nat (- i)) else str_nat (nat i))"

definition chunk_key :: "string \<Rightarrow> int \<Rightarrow> string" where
  "chunk_key filename index = filename @ ''_'' @ str_int index"

text \<open>
  \<^verbatim>\<open>hashlib.md5(...).hexdigest()\<close> is a library function; it is the parameter \<open>md5\<close>.
  \<^verbatim>\<open>Retriever._generate_chunk_id\<close>:
\<close>

definition generate_chunk_id :: "(string \<Rightarrow> string) \<Rightarrow> string \<Rightarrow> int \<Rightarrow> string" where
  "generate_chunk_id md5 filename index = md5 (chunk_key filename index)"

section \<open>Chunker\<close>

text \<open>
  The tokenizer (\<^verbatim>\<open>tiktoken\<close>), the hash and the clock are external; they are the
  fields of the environment. \<open>encode\<close> is the tokenizer on a text it accepts: on a text
  that holds the string of a special token it raises instead, before the loop is entered,
  and such texts are outside this model. \<open>clock k\<close> is the reading of
  \<^verbatim>\<open>datetime.now().isoformat()\<close> taken while chunk \<open>k\<close> is built.
\<close>

record 'tok env =
  encode :: "string \<Rightarrow> 'tok list"
  decode :: "'tok list \<Rightarrow> string"
  md5_hex :: "string \<Rightarrow> string"
  clock :: "int \<Rightarrow> string"

record processor =
  chunk_size :: int
  chunk_overlap :: int

text \<open>\<^verbatim>\<open>DocumentProcessor.__init__\<close> stores its two arguments and checks nothing.\<close>

definition DocumentProcessor :: "int \<Rightarrow> int \<Rightarrow> error + processor" where
  "DocumentProcessor csize coverlap = Inr \<lparr>chunk_size = csize, chunk_overlap = coverlap\<rparr>"

text \<open>
  Python's slice \<^verbatim>\<open>xs[s:e]\<close>: a negative bound counts from the end of the list, and
  both bounds are clamped to the list.
\<close>

definition py_bound :: "int \<Rightarrow> int \<Rightarrow> int" where
  "py_bound n i = (if i < 0 then max (i + n) 0 else min i n)"

definition py_slice :: "'a list \<Rightarrow> int \<Rightarrow> int \<Rightarrow> 'a list" where
  "py_slice xs s e =
     (let n = int (length xs); s' = py_bound n s; e' = py_bound n e
      in take (nat (e' - s')) (drop (nat s') xs))"

text \<open>Line 85: the end of the window that starts at \<open>start\<close>.\<close>

definition window_end :: "int \<Rightarrow> int \<Rightarrow> int \<Rightarrow> int" where
  "window_end csize total_tokens start = min (start + csize) total_tokens"

text \<open>Lines 86 to 101: the chunk built for the window \<open>[start, stop)\<close>.\<close>

definition make_chunk :: "'tok env \<Rightarrow> string \<Rightarrow> 'tok list \<Rightarrow> int \<Rightarrow> int \<Rightarrow> int \<Rightarrow> chunk" where
  "make_chunk env filename tokens start stop index =
     (let chunk_tokens = py_slice tokens start stop
      in \<lparr>chunk_id = md5_hex env (filename @ ''_'' @ str_int index),
          chunk_text = decode env chunk_tokens,
          meta = \<lparr>source = filename, chunk_index = index,
                   processed_date = clock env index,
                   token_count = length chunk_tokens\<rparr>\<rparr>)"

text \<open>
  The \<^verbatim>\<open>while start < total_tokens\<close> loop of \<^verbatim>\<open>_chunk_content\<close>. Nothing in the code
  bounds the number of iterations, so the loop is a partial function: \<open>None\<close> is a run
  that never returns.
\<close>

partial_function (option) chunk_loop ::
  "'tok env \<Rightarrow> processor \<Rightarrow> string \<Rightarrow> 'tok list \<Rightarrow> int \<Rightarrow> int \<Rightarrow> chunk list \<Rightarrow> chunk list option"
where
  "chunk_loop env p filename tokens start index chunks =
     (let total_tokens = int (length tokens) in
      if start < total_tokens then
        (let stop = window_end (chunk_size p) total_tokens start;
             chunks' = chunks @ [make_chunk env filename tokens start stop index]
         in if stop = total_tokens then Some chunks'
            else chunk_loop env p filename tokens
                   (start + (chunk_size p - chunk_overlap p)) (index + 1) chunks')
      else Some chunks)"

declare chunk_loop.simps [code]

definition chunk_content :: "'tok env \<Rightarrow> processor \<Rightarrow> string \<Rightarrow> string \<Rightarrow> chunk list option" where
  "chunk_content env p content filename = chunk_loop env p filename (encode env content) 0 0 []"

text \<open>
  The windows the specification describes: window \<open>k\<close> starts at \<open>k\<close> strides and
  ends where line 85 puts the end of a window starting there.
\<close>

definition stride :: "processor \<Rightarrow> int" where
  "stride p = chunk_size p - chunk_overlap p"

definition window_start :: "processor \<Rightarrow> int \<Rightarrow> int" where
  "window_start p k = k * stride p"

definition window_stop :: "processor \<Rightarrow> int \<Rightarrow> int \<Rightarrow> int" where
  "window_stop p n k = window_end (chunk_size p) n (window_start p k)"

definition window_chunk :: "'tok env \<Rightarrow> processor \<Rightarrow> string \<Rightarrow> 'tok list \<Rightarrow> int \<Rightarrow> chunk" where
  "window_chunk env p filename tokens k =
     make_chunk env filename tokens (window_start p k)
       (window_end (chunk_size p) (int (length tokens)) (window_start p k)) k"

definition token_total :: "'tok env \<Rightarrow> string \<Rightarrow> int" where
  "token_total env content = int (length (encode env content))"

text \<open>
  The chunk count in the words of the specification:
  \<open>ceil((N - O) / (W - O))\<close> when \<open>N > W\<close>, else 1.
\<close>

definition spec_chunk_count :: "processor \<Rightarrow> int \<Rightarrow> int" where
  "spec_chunk_count p n =
     (if chunk_size p < n
      then \<lceil>real_of_int (n - chunk_overlap p) / real_of_int (chunk_size p - chunk_overlap p)\<rceil>
      else 1)"

section \<open>A concrete environment\<close>

text \<open>
  For evaluation on concrete inputs: every character is one token, the hash is the
  identity, and the clock always reads the same instant.
\<close>

definition char_env :: "char env" where
  "char_env = \<lparr>encode = (\<lambda>s. s), decode = (\<lambda>ts. ts), md5_hex = (\<lambda>s. s),
                clock = (\<lambda>k. ''2024-01-01T00:00:00'')\<rparr>"

text \<open>The default configuration of \<^verbatim>\<open>DocumentProcessor\<close>.\<close>

definition spec_processor :: processor where
  "spec_processor = \<lparr>chunk_size = 800, chunk_overlap = 100\<rparr>"

section \<open>Store\<close>

text \<open>
  A row of the table \<^verbatim>\<open>documents (id, content, metadata, embedding)\<close>. The table is the
  list of its rows; \<^verbatim>\<open>id\<close> is the primary key.
\<close>

record 'e row =
  row_id :: string
  row_content :: string
  row_meta :: metadata
  embedding :: 'e

text \<open>
  What the store calls outside the code: the embedding service behind
  \<^verbatim>\<open>client.embeddings.create\<close>, \<^verbatim>\<open>psycopg2.connect\<close> (which succeeds or not), the
  database's acceptance of a row on \<^verbatim>\<open>INSERT\<close>, and the distance operator \<^verbatim>\<open><=>\<close> of
  the vector extension.
\<close>

record 'e services =
  embedder :: "string \<Rightarrow> error + 'e"
  connect_ok :: bool
  accepts :: "'e row \<Rightarrow> bool"
  distance :: "'e \<Rightarrow> 'e \<Rightarrow> real"

text \<open>\<^verbatim>\<open>get_embedding\<close>: newlines become spaces, then the service is called.\<close>

definition get_embedding :: "'e services \<Rightarrow> string \<Rightarrow> error + 'e" where
  "get_embedding sv txt =
     embedder sv (map (\<lambda>c. if c = CHR 0x0A then CHR '' '' else c) txt)"

text \<open>
  \<^verbatim>\<open>INSERT ... ON CONFLICT (id) DO UPDATE SET content, metadata, embedding\<close>: the row
  with the same id is replaced, otherwise the row is added.
\<close>

fun upsert :: "'e row \<Rightarrow> 'e row list \<Rightarrow> 'e row list" where
  "upsert r [] = [r]"
| "upsert r (x # xs) = (if row_id x = row_id r then r # xs else x # upsert r xs)"

definition chunk_row :: "chunk \<Rightarrow> 'e \<Rightarrow> 'e row" where
  "chunk_row c emb =
     \<lparr>row_id = chunk_id c, row_content = chunk_text c, row_meta = meta c, embedding = emb\<rparr>"

text \<open>
  The \<^verbatim>\<open>for chunk in chunks\<close> loop of \<^verbatim>\<open>add_documents\<close>, run inside one open
  transaction: the argument and the result are the table as the transaction sees it.
  An exception from the embedding service or from \<^verbatim>\<open>cur.execute\<close> leaves the loop.
\<close>

fun add_loop :: "'e services \<Rightarrow> 'e row list \<Rightarrow> chunk list \<Rightarrow> error + 'e row list" where
  "add_loop sv txn [] = Inr txn"
| "add_loop sv txn (c # cs) =
     (case get_embedding sv (chunk_text c) of
        Inl e \<Rightarrow> Inl e
      | Inr emb \<Rightarrow>
          if accepts sv (chunk_row c emb) then add_loop sv (upsert (chunk_row c emb) txn) cs
          else Inl StoreConnectivityError)"

text \<open>
  \<^verbatim>\<open>add_documents\<close>. The only \<^verbatim>\<open>conn.commit()\<close> follows the loop, inside
  \<^verbatim>\<open>with self._get_conn() as conn\<close>, whose exit rolls the transaction back when an
  exception passes through it. The result is the exception, if any, and the committed
  table after the call.
\<close>

definition add_documents :: "'e services \<Rightarrow> 'e row list \<Rightarrow> chunk list \<Rightarrow> error option \<times> 'e row list" where
  "add_documents sv table chunks =
     (if \<not> connect_ok sv then (Some StoreConnectivityError, table)
      else case add_loop sv table chunks of
             Inl e \<Rightarrow> (Some e, table)
           | Inr txn \<Rightarrow> (None, txn))"

text \<open>\<^verbatim>\<open>DELETE FROM documents WHERE metadata->>'source' = %s\<close>, then commit.\<close>

definition delete_document :: "'e services \<Rightarrow> 'e row list \<Rightarrow> string \<Rightarrow> error option \<times> 'e row list" where
  "delete_document sv table filename =
     (if \<not> connect_ok sv then (Some StoreConnectivityError, table)
      else (None, filter (\<lambda>r. source (row_meta r) \<noteq> filename) table))"

text \<open>\<^verbatim>\<open>SELECT DISTINCT metadata->>'source' FROM documents\<close>.\<close>

definition get_all_documents :: "'e services \<Rightarrow> 'e row list \<Rightarrow> error + string list" where
  "get_all_documents sv table =
     (if \<not> connect_ok sv then Inl StoreConnectivityError
      else Inr (remdups (map (\<lambda>r. source (row_meta r)) table)))"


definition row_chunk :: "'e row \<Rightarrow> chunk" where
  "row_chunk r = \<lparr>chunk_id = row_id r, chunk_text = row_content r, meta = row_meta r\<rparr>"



text \<open>
  \<^verbatim>\<open>get_chunks_by_ids\<close>: an empty list returns before any connection is opened;
  otherwise \<^verbatim>\<open>SELECT id, content, metadata FROM documents WHERE id = ANY(%s)\<close>.
\<close>

definition get_chunks_by_ids :: "'e services \<Rightarrow> 'e row list \<Rightarrow> string list \<Rightarrow> error + chunk list" where
  "get_chunks_by_ids sv table chunk_ids =
     (if chunk_ids = [] then Inr []
      else if \<not> connect_ok sv then Inl StoreConnectivityError
      else Inr (map row_chunk (filter (\<lambda>r. row_id r \<in> set chunk_ids) table)))"

text \<open>
  Whether the loop of \<^verbatim>\<open>add_documents\<close> fails at a chunk: its embedding cannot be
  obtained, or the database rejects its row.
\<close>

definition step_fails :: "'e services \<Rightarrow> chunk \<Rightarrow> bool" where
  "step_fails sv c =
     (case get_embedding sv (chunk_text c) of
        Inl e \<Rightarrow> True
      | Inr emb \<Rightarrow> \<not> accepts sv (chunk_row c emb))"

text \<open>
  Concrete services for evaluation: an embedding is the length of the text, the service
  fails on the text \<open>bad\<close>, and the distance is the absolute difference.
\<close>

definition demo_services :: "int services" where
  "demo_services =
     \<lparr>embedder = (\<lambda>t. if t = ''bad'' then Inl EmbeddingServiceError else Inr (int (length t))),
      connect_ok = True,
      accepts = (\<lambda>r. True),
      distance = (\<lambda>a b. real_of_int \<bar>a - b\<bar>)\<rparr>"

definition demo_chunk :: "string \<Rightarrow> int \<Rightarrow> string \<Rightarrow> chunk" where
  "demo_chunk filename index txt =
     \<lparr>chunk_id = generate_chunk_id (\<lambda>s. s) filename index, chunk_text = txt,
      meta = \<lparr>source = filename, chunk_index = index,
               processed_date = ''2024-01-01T00:00:00'', token_count = length txt\<rparr>\<rparr>"

definition demo_table :: "int row list" where
  "demo_table =
     [chunk_row (demo_chunk ''a.txt'' 0 ''alpha'') 5,
      chunk_row (demo_chunk ''a.txt'' 1 ''be'') 2,
      chunk_row (demo_chunk ''b.txt'' 0 ''gam'') 3]"

section \<open>Retriever\<close>









text \<open>
  The invariant of the data model: the id of a stored row is the chunk id of its source
  and chunk index, and the chunk index is not negative.
\<close>

definition id_invariant :: "(string \<Rightarrow> string) \<Rightarrow> 'e row list \<Rightarrow> bool" where
  "id_invariant md5 table =
     (\<forall>r \<in> set table.
        row_id r = generate_chunk_id md5 (source (row_meta r)) (chunk_index (row_meta r)) \<and>
        0 \<le> chunk_index (row_meta r))"


section \<open>File processing\<close>

text \<open>
  \<^verbatim>\<open>Path(file_path)\<close> splits the path at \<open>/\<close> and drops the empty components and the
  components \<open>.\<close>; \<^verbatim>\<open>.name\<close> is the last component left, or the empty string when
  none is. \<^verbatim>\<open>.suffix\<close> is the part of the name from its last dot, when that dot is
  neither the first nor the last character of the name. \<^verbatim>\<open>.lower()\<close> is taken on ASCII
  letters.
\<close>

fun split_on :: "char \<Rightarrow> string \<Rightarrow> string list" where
  "split_on c [] = [[]]"
| "split_on c (x # xs) =
     (if x = c then [] # split_on c xs
      else (case split_on c xs of [] \<Rightarrow> [[x]] | part # parts \<Rightarrow> (x # part) # parts))"

definition path_parts :: "string \<Rightarrow> string list" where
  "path_parts path = filter (\<lambda>part. part \<noteq> [] \<and> part \<noteq> ''.'') (split_on (CHR ''/'') path)"

definition path_name :: "string \<Rightarrow> string" where
  "path_name path = (case rev (path_parts path) of [] \<Rightarrow> [] | name # parents \<Rightarrow> name)"

definition suffix_of :: "string \<Rightarrow> string" where
  "suffix_of name =
     (let ext = rev (takeWhile (\<lambda>c. c \<noteq> CHR ''.'') (rev name))
      in if CHR ''.'' \<in> set name \<and> ext \<noteq> [] \<and> length ext + 1 < length name
         then CHR ''.'' # ext else [])"

definition lower_char :: "char \<Rightarrow> char" where
  "lower_char c =
     (let n = (of_char c :: nat) in if 65 \<le> n \<and> n \<le> 90 then char_of (n + 32) else c)"

definition lower :: "string \<Rightarrow> string" where
  "lower s = map lower_char s"

text \<open>
  The file system and the readers (\<^verbatim>\<open>pypdf\<close>, \<^verbatim>\<open>docx\<close>, \<^verbatim>\<open>open\<close>,
  \<^verbatim>\<open>BeautifulSoup\<close>) are external; a reader returns the text or fails.
\<close>

record files =
  file_exists :: "string \<Rightarrow> bool"
  read_pdf :: "string \<Rightarrow> error + string"
  read_docx :: "string \<Rightarrow> error + string"
  read_text :: "string \<Rightarrow> error + string"
  read_html :: "string \<Rightarrow> error + string"

text \<open>Lines 23 to 36 of \<^verbatim>\<open>process_file\<close>: the dispatch on the extension.\<close>

definition extract_text :: "files \<Rightarrow> string \<Rightarrow> error + string" where
  "extract_text fs path =
     (let file_ext = lower (suffix_of (path_name path)) in
      if file_ext = ''.pdf'' then read_pdf fs path
      else if file_ext = ''.docx'' then read_docx fs path
      else if file_ext \<in> set [''.txt'', ''.md''] then read_text fs path
      else if file_ext = ''.html'' then read_html fs path
      else Inl ValueError)"

text \<open>
  \<^verbatim>\<open>process_file\<close>: a missing file raises before the \<^verbatim>\<open>try\<close>; inside it, every
  exception is caught, printed, and turned into the empty list. \<open>None\<close> is a chunker that
  does not return.
\<close>

definition process_file ::
  "'tok env \<Rightarrow> processor \<Rightarrow> files \<Rightarrow> string \<Rightarrow> (error + chunk list) option"
where
  "process_file env p fs path =
     (if \<not> file_exists fs path then Some (Inl FileNotFoundError)
      else case extract_text fs path of
             Inl e \<Rightarrow> Some (Inr [])
           | Inr content \<Rightarrow>
               (case chunk_content env p content (path_name path) of
                  None \<Rightarrow> None
                | Some chunks \<Rightarrow> Some (Inr chunks)))"

section \<open>Batch ingestion\<close>

text \<open>
  The upload loop of \<^verbatim>\<open>app.py\<close>. An uploaded file is written to a temporary file whose
  name ends in the uploaded name; the temporary file is processed, the source of every
  chunk is then set to the uploaded name, and the chunks are added to the store. Every
  exception is caught and reported, and the loop goes on with the next file.
\<close>

record upload =
  upload_name :: string
  tmp_path :: string

datatype status = Indexed nat | NoContent | Failed error

definition set_source :: "string \<Rightarrow> chunk \<Rightarrow> chunk" where
  "set_source name c = c\<lparr>meta := (meta c)\<lparr>source := name\<rparr>\<rparr>"

definition ingest_upload ::
  "'tok env \<Rightarrow> processor \<Rightarrow> files \<Rightarrow> 'e services \<Rightarrow> 'e row list \<Rightarrow> upload
     \<Rightarrow> (status \<times> 'e row list) option"
where
  "ingest_upload env p fs sv table u =
     (case process_file env p fs (tmp_path u) of
        None \<Rightarrow> None
      | Some (Inl e) \<Rightarrow> Some (Failed e, table)
      | Some (Inr chunks) \<Rightarrow>
          if chunks = [] then Some (NoContent, table)
          else (case add_documents sv table (map (set_source (upload_name u)) chunks) of
                  (Some e, t) \<Rightarrow> Some (Failed e, t)
                | (None, t) \<Rightarrow> Some (Indexed (length chunks), t)))"

fun process_uploads ::
  "'tok env \<Rightarrow> processor \<Rightarrow> files \<Rightarrow> 'e services \<Rightarrow> 'e row list \<Rightarrow> upload list
     \<Rightarrow> (status list \<times> 'e row list) option"
where
  "process_uploads env p fs sv table [] = Some ([], table)"
| "process_uploads env p fs sv table (u # us) =
     (case ingest_upload env p fs sv table u of
        None \<Rightarrow> None
      | Some (st, t) \<Rightarrow>
          (case process_uploads env p fs sv t us of
             None \<Rightarrow> None
           | Some (sts, t') \<Rightarrow> Some (st # sts, t')))"

text \<open>The file types \<^verbatim>\<open>process_file\<close> dispatches on.\<close>

definition supported_suffixes :: "string list" where
  "supported_suffixes = [''.pdf'', ''.docx'', ''.txt'', ''.md'', ''.html'']"

text \<open>Concrete files for evaluation.\<close>

definition demo_files :: files where
  "demo_files =
     \<lparr>file_exists = (\<lambda>path. path \<in> set [''/tmp/notes.xyz'', ''/tmp/empty.txt'',
                                         ''/tmp/tmpk3x9_doc.txt'']),
      read_pdf = (\<lambda>path. Inl ExtractionError),
      read_docx = (\<lambda>path. Inl ExtractionError),
      read_text = (\<lambda>path. if path = ''/tmp/empty.txt'' then Inr [] else Inr ''hello''),
      read_html = (\<lambda>path. Inl ExtractionError)\<rparr>"

definition doc_upload :: upload where
  "doc_upload = \<lparr>upload_name = ''doc.txt'', tmp_path = ''/tmp/tmpk3x9_doc.txt''\<rparr>"

definition bad_upload :: upload where
  "bad_upload = \<lparr>upload_name = ''notes.xyz'', tmp_path = ''/tmp/notes.xyz''\<rparr>"

text \<open>A chunk whose id is the chunk id of the given file name and of its own chunk index.\<close>

definition derived_id :: "(string \<Rightarrow> string) \<Rightarrow> string \<Rightarrow> chunk \<Rightarrow> bool" where
  "derived_id md5 filename c \<longleftrightarrow>
     chunk_id c = generate_chunk_id md5 filename (chunk_index (meta c)) \<and>
     source (meta c) = filename"

section \<open>The table as a map from ids to rows\<close>

text \<open>
  The row the table holds under an id, the last chunk of a call that carries an id, and
  the row \<^verbatim>\<open>add_documents\<close> writes for a chunk: its id, text and metadata with the
  embedding the service returns for its text.
\<close>

definition row_at :: "'e row list \<Rightarrow> string \<Rightarrow> 'e row option" where
  "row_at table i = List.find (\<lambda>r. row_id r = i) table"

definition last_write :: "chunk list \<Rightarrow> string \<Rightarrow> chunk option" where
  "last_write chunks i = List.find (\<lambda>c. chunk_id c = i) (rev chunks)"

definition written_row :: "'e services \<Rightarrow> chunk \<Rightarrow> 'e row option" where
  "written_row sv c =
     (case get_embedding sv (chunk_text c) of
        Inl e \<Rightarrow> None
      | Inr emb \<Rightarrow> Some (chunk_row c emb))"

section \<open>Two uploads whose names meet\<close>





section \<open>The chunking loop, one iteration at a time\<close>

lemma chunk_loop_done:
  "int (length tokens) \<le> start \<Longrightarrow> chunk_loop env p filename tokens start index chunks = Some chunks"
  by (subst chunk_loop.simps) simp

lemma chunk_loop_last:
  assumes "start < int (length tokens)"
    and "window_end (chunk_size p) (int (length tokens)) start = int (length tokens)"
  shows "chunk_loop env p filename tokens start index chunks =
           Some (chunks @ [make_chunk env filename tokens start (int (length tokens)) index])"
  using assms by (subst chunk_loop.simps) (simp add: Let_def)

lemma chunk_loop_step:
  assumes "start < int (length tokens)"
    and "window_end (chunk_size p) (int (length tokens)) start \<noteq> int (length tokens)"
  shows "chunk_loop env p filename tokens start index chunks =
           chunk_loop env p filename tokens (start + (chunk_size p - chunk_overlap p)) (index + 1)
             (chunks @ [make_chunk env filename tokens start
                          (window_end (chunk_size p) (int (length tokens)) start) index])"
  using assms by (subst chunk_loop.simps) (simp add: Let_def)

text \<open>
  Termination: when the step \<open>chunk_size - chunk_overlap\<close> is positive, the distance
  from \<open>start\<close> to the token count shrinks at every iteration that does not leave the loop.
\<close>

lemma chunk_loop_terminates:
  assumes "chunk_overlap p < chunk_size p"
  shows "\<exists>out. chunk_loop env p filename tokens start index chunks = Some out \<and>
               length out \<le> length chunks + nat (int (length tokens) - start)"
proof (induction "nat (int (length tokens) - start)" arbitrary: start index chunks rule: less_induct)
  case less
  show ?case
  proof (cases "start < int (length tokens)")
    case False
    then show ?thesis by (simp add: chunk_loop_done)
  next
    case inside: True
    show ?thesis
    proof (cases "window_end (chunk_size p) (int (length tokens)) start = int (length tokens)")
      case True
      with inside show ?thesis by (simp add: chunk_loop_last)
    next
      case False
      let ?next = "start + (chunk_size p - chunk_overlap p)"
      let ?chunks = "chunks @ [make_chunk env filename tokens start
                        (window_end (chunk_size p) (int (length tokens)) start) index]"
      have closer: "nat (int (length tokens) - ?next) < nat (int (length tokens) - start)"
        using assms inside by linarith
      from less [OF closer] obtain out where
        out: "chunk_loop env p filename tokens ?next (index + 1) ?chunks = Some out"
        and len: "length out \<le> length ?chunks + nat (int (length tokens) - ?next)"
        by blast
      have "length ?chunks = Suc (length chunks)" by simp
      with len closer have "length out \<le> length chunks + nat (int (length tokens) - start)"
        by linarith
      with out inside False show ?thesis by (simp add: chunk_loop_step)
    qed
  qed
qed

section \<open>Termination of the chunker\<close>

text \<open>
  Claim C10. For every text, file name and configuration with
  \<open>chunk_overlap < chunk_size\<close>, the chunking loop returns: each iteration either leaves
  the loop because the window reached the token count, or moves \<open>start\<close> forward by
  \<open>chunk_size - chunk_overlap > 0\<close>. The number of chunks is at most the number of
  tokens. The bound \<open>chunk_size \<ge> 1\<close> of the claim is not needed.
\<close>

theorem chunk_content_terminates:
  assumes "chunk_overlap p < chunk_size p"
  shows "\<exists>chunks. chunk_content env p content filename = Some chunks \<and>
                  length chunks \<le> length (encode env content)"
  using chunk_loop_terminates [OF assms, of env filename "encode env content" 0 0 "[]"]
  by (simp add: chunk_content_def)

theorem chunk_content_terminates_witness:
  "chunk_overlap \<lparr>chunk_size = 800, chunk_overlap = 100\<rparr> < chunk_size \<lparr>chunk_size = 800, chunk_overlap = 100\<rparr> \<and>
   (\<exists>chunks. chunk_content char_env \<lparr>chunk_size = 800, chunk_overlap = 100\<rparr> ''hello world'' ''a.txt'' = Some chunks \<and>
              length chunks \<le> length (encode char_env ''hello world''))"
  using chunk_content_terminates [of "\<lparr>chunk_size = 800, chunk_overlap = 100\<rparr>" char_env "''hello world''" "''a.txt''"]
  by simp

section \<open>The windows of the chunker\<close>

lemma py_slice_inside:
  "0 \<le> s \<Longrightarrow> s \<le> e \<Longrightarrow> e \<le> int (length xs) \<Longrightarrow>
     py_slice xs s e = take (nat (e - s)) (drop (nat s) xs)"
  by (simp add: py_slice_def py_bound_def Let_def)

lemma ceiling_quotient_bounds:
  fixes a b :: int
  assumes "0 < b"
  shows "a \<le> \<lceil>real_of_int a / real_of_int b\<rceil> * b"
    and "(\<lceil>real_of_int a / real_of_int b\<rceil> - 1) * b < a"
proof -
  let ?c = "\<lceil>real_of_int a / real_of_int b\<rceil>"
  from assms have b: "0 < real_of_int b" by simp
  have "real_of_int a \<le> real_of_int ?c * real_of_int b"
    using ceiling_divide_upper [OF b] .
  then have "real_of_int a \<le> real_of_int (?c * b)" by simp
  then show "a \<le> ?c * b" by (simp only: of_int_le_iff)
  have "(real_of_int ?c - 1) * real_of_int b < real_of_int a"
    using ceiling_divide_lower [OF b] .
  then have "real_of_int ((?c - 1) * b) < real_of_int a" by simp
  then show "(?c - 1) * b < a" by (simp only: of_int_less_iff)
qed

lemma chunk_loop_windows:
  assumes "0 < chunk_size p"
    and "k \<le> m"
    and "window_start p m < int (length tokens)"
    and "int (length tokens) \<le> window_start p m + chunk_size p"
    and "\<And>j. k \<le> j \<Longrightarrow> j < m \<Longrightarrow> window_start p j + chunk_size p < int (length tokens)"
  shows "chunk_loop env p filename tokens (window_start p k) k chunks =
           Some (chunks @ map (window_chunk env p filename tokens) [k..m])"
  using assms(2,5)
proof (induction "nat (m - k)" arbitrary: k chunks)
  case 0
  then have "k = m" by simp
  with assms(3,4) show ?case
    by (simp add: chunk_loop_last window_end_def window_chunk_def)
next
  case (Suc n)
  then have km: "k < m" by linarith
  from Suc.prems(2) [OF _ km] have full: "window_start p k + chunk_size p < int (length tokens)"
    by simp
  with assms(1) have inside: "window_start p k < int (length tokens)" by linarith
  from full have we: "window_end (chunk_size p) (int (length tokens)) (window_start p k)
                        \<noteq> int (length tokens)"
    by (simp add: window_end_def)
  have nxt: "window_start p k + (chunk_size p - chunk_overlap p) = window_start p (k + 1)"
    by (simp add: window_start_def stride_def algebra_simps)
  have "n = nat (m - (k + 1))" using Suc.hyps(2) by linarith
  moreover have "k + 1 \<le> m" using km by simp
  moreover have "\<And>j. k + 1 \<le> j \<Longrightarrow> j < m \<Longrightarrow> window_start p j + chunk_size p < int (length tokens)"
    using Suc.prems(2) by simp
  ultimately have IH: "chunk_loop env p filename tokens (window_start p (k + 1)) (k + 1)
        (chunks @ [window_chunk env p filename tokens k]) =
      Some ((chunks @ [window_chunk env p filename tokens k]) @
              map (window_chunk env p filename tokens) [k + 1..m])"
    by (rule Suc.hyps(1))
  have "[k..m] = k # [k + 1..m]" using km by (simp add: upto_rec1)
  with IH show ?case
    by (simp add: chunk_loop_step [OF inside we] nxt window_chunk_def)
qed


lemma last_window_facts:
  assumes "0 \<le> chunk_overlap p" and "chunk_overlap p < chunk_size p" and "0 < n"
  defines "m \<equiv> spec_chunk_count p n - 1"
  shows "0 \<le> m"
    and "window_start p m < n"
    and "n \<le> window_start p m + chunk_size p"
    and "\<And>j. 0 \<le> j \<Longrightarrow> j < m \<Longrightarrow> window_start p j + chunk_size p < n"
proof -
  let ?s = "chunk_size p - chunk_overlap p"
  let ?c = "\<lceil>real_of_int (n - chunk_overlap p) / real_of_int ?s\<rceil>"
  have s: "0 < ?s" using assms(2) by simp
  have all: "0 \<le> m \<and> window_start p m < n \<and> n \<le> window_start p m + chunk_size p \<and>
             (\<forall>j. 0 \<le> j \<longrightarrow> j < m \<longrightarrow> window_start p j + chunk_size p < n)"
  proof (cases "chunk_size p < n")
    case False
    then have "m = 0" by (simp add: m_def spec_chunk_count_def)
    with False assms(3) show ?thesis by (simp add: window_start_def)
  next
    case True
    then have m: "m = ?c - 1" by (simp add: m_def spec_chunk_count_def)
    have up: "n - chunk_overlap p \<le> ?c * ?s" by (rule ceiling_quotient_bounds(1) [OF s])
    have lo: "(?c - 1) * ?s < n - chunk_overlap p" by (rule ceiling_quotient_bounds(2) [OF s])
    have "?s < ?c * ?s" using up True by linarith
    then have "1 * ?s < ?c * ?s" by simp
    then have "1 < ?c" using s by (simp add: mult_less_cancel_right)
    then have m0: "0 \<le> m" using m by simp
    have ms: "window_start p m = (?c - 1) * ?s" by (simp add: m window_start_def stride_def)
    have a: "window_start p m < n" using lo assms(1) unfolding ms by linarith
    have "(?c - 1) * ?s = ?c * ?s - ?s" by (simp add: algebra_simps)
    then have b: "n \<le> window_start p m + chunk_size p" using up unfolding ms by linarith
    have c: "window_start p j + chunk_size p < n" if "j < m" for j
    proof -
      from that have "j \<le> m - 1" by simp
      then have "j * ?s \<le> (m - 1) * ?s" using s by (intro mult_right_mono) simp_all
      moreover have "(m - 1) * ?s = (?c - 1) * ?s - ?s" by (simp add: m algebra_simps)
      ultimately show ?thesis using lo unfolding window_start_def stride_def by linarith
    qed
    from m0 a b c show ?thesis by blast
  qed
  from all show "0 \<le> m" "window_start p m < n" "n \<le> window_start p m + chunk_size p"
    "\<And>j. 0 \<le> j \<Longrightarrow> j < m \<Longrightarrow> window_start p j + chunk_size p < n" by blast+
qed

lemma chunk_loop_closed_form:
  assumes "0 \<le> chunk_overlap p" and "chunk_overlap p < chunk_size p" and "tokens \<noteq> []"
  shows "chunk_loop env p filename tokens 0 0 [] =
           Some (map (window_chunk env p filename tokens)
                   [0..spec_chunk_count p (int (length tokens)) - 1])"
proof -
  have n: "0 < int (length tokens)" using assms(3) by simp
  have w: "0 < chunk_size p" using assms(1,2) by linarith
  note f = last_window_facts [OF assms(1,2) n]
  have "chunk_loop env p filename tokens (window_start p 0) 0 [] =
          Some ([] @ map (window_chunk env p filename tokens)
                  [0..spec_chunk_count p (int (length tokens)) - 1])"
    using w f(1) f(2) f(3) f(4) by (rule chunk_loop_windows)
  then show ?thesis by (simp add: window_start_def)
qed


lemma make_chunk_fields:
  assumes "0 \<le> a" and "a \<le> b" and "b \<le> int (length tokens)"
  shows "chunk_text (make_chunk env filename tokens a b k) =
           decode env (take (nat (b - a)) (drop (nat a) tokens))"
    and "token_count (meta (make_chunk env filename tokens a b k)) = nat (b - a)"
    and "chunk_index (meta (make_chunk env filename tokens a b k)) = k"
    and "source (meta (make_chunk env filename tokens a b k)) = filename"
  using assms by (simp_all add: make_chunk_def Let_def py_slice_inside)

lemma window_cover:
  assumes s: "0 < stride p" and w: "stride p \<le> chunk_size p"
    and m: "0 \<le> m" and last: "n \<le> window_start p m + chunk_size p"
    and t: "0 \<le> t" "t < n"
  shows "\<exists>k. 0 \<le> k \<and> k \<le> m \<and> window_start p k \<le> t \<and> t < window_stop p n k"
proof -
  let ?q = "t div stride p"
  have eq: "t = stride p * ?q + t mod stride p" by simp
  have lo: "0 \<le> t mod stride p" and hi: "t mod stride p < stride p"
    using s by simp_all
  have q0: "0 \<le> ?q" using t(1) s by (simp add: pos_imp_zdiv_nonneg_iff)
  have below: "?q * stride p \<le> t" using eq lo by (metis add.commute le_add_same_cancel2 mult.commute)
  have above: "t < ?q * stride p + stride p"
    using eq hi by (metis add.commute add_strict_left_mono mult.commute)
  show ?thesis
  proof (cases "?q \<le> m")
    case True
    have "t < window_stop p n ?q"
      using above w t(2) by (simp add: window_stop_def window_end_def window_start_def)
    with q0 True below show ?thesis
      by (intro exI [of _ ?q]) (simp add: window_start_def)
  next
    case False
    then have "m * stride p \<le> ?q * stride p" using s by (intro mult_right_mono) simp_all
    with below have "window_start p m \<le> t" by (simp add: window_start_def)
    moreover have "t < window_stop p n m"
      using last t(2) by (simp add: window_stop_def window_end_def)
    ultimately show ?thesis using m by (intro exI [of _ m]) simp
  qed
qed


text \<open>
  Claim C4, as the code has it. The claim as written promises one chunk whenever the token
  count is at most the window size; the loop produces none for an empty token list, and
  the count and the cover need a non-negative overlap. For \<open>0 \<le> O < W\<close> and \<open>N\<close> tokens:
  the chunker returns \<open>0\<close> chunks when \<open>N = 0\<close>, else \<open>ceil((N - O) / (W - O))\<close> chunks when
  \<open>N > W\<close> and one chunk otherwise; chunk \<open>k\<close> has \<open>chunk_index = k\<close> and holds the tokens
  of the window from \<open>k (W - O)\<close> to \<open>min (k (W - O) + W) N\<close>; every window but the last
  is full and shares exactly \<open>O\<close> tokens with the next; the last window ends at \<open>N\<close>;
  every token position below \<open>N\<close> lies in some window.
\<close>

theorem chunker_windows:
  assumes "0 \<le> chunk_overlap p" and "chunk_overlap p < chunk_size p"
  shows "\<exists>chunks.
     chunk_content env p content filename = Some chunks \<and>
     int (length chunks) =
       (if token_total env content = 0 then 0 else spec_chunk_count p (token_total env content)) \<and>
     (\<forall>k. 0 \<le> k \<and> k < int (length chunks) \<longrightarrow>
        chunk_index (meta (chunks ! nat k)) = k \<and>
        0 \<le> window_start p k \<and> window_start p k < window_stop p (token_total env content) k \<and>
        chunk_text (chunks ! nat k) =
          decode env (take (nat (window_stop p (token_total env content) k - window_start p k))
                        (drop (nat (window_start p k)) (encode env content))) \<and>
        token_count (meta (chunks ! nat k)) =
          nat (window_stop p (token_total env content) k - window_start p k) \<and>
        (k + 1 < int (length chunks) \<longrightarrow>
           window_stop p (token_total env content) k = window_start p k + chunk_size p \<and>
           window_stop p (token_total env content) k - window_start p (k + 1) = chunk_overlap p) \<and>
        (k + 1 = int (length chunks) \<longrightarrow>
           window_stop p (token_total env content) k = token_total env content)) \<and>
     (\<forall>t. 0 \<le> t \<and> t < token_total env content \<longrightarrow>
        (\<exists>k. 0 \<le> k \<and> k < int (length chunks) \<and>
             window_start p k \<le> t \<and> t < window_stop p (token_total env content) k))"
proof (cases "encode env content = []")
  case True
  then have "chunk_content env p content filename = Some []"
    by (simp add: chunk_content_def chunk_loop_done)
  with True show ?thesis by (auto simp add: token_total_def)
next
  case False
  let ?tokens = "encode env content"
  let ?n = "token_total env content"
  let ?m = "spec_chunk_count p ?n - 1"
  let ?chunks = "map (window_chunk env p filename ?tokens) [0..?m]"
  have n: "0 < ?n" and nlen: "?n = int (length ?tokens)"
    using False by (simp_all add: token_total_def)
  have w: "0 < chunk_size p" using assms by linarith
  have s: "0 < stride p" and sw: "stride p \<le> chunk_size p"
    using assms by (simp_all add: stride_def)
  note f = last_window_facts [OF assms n]
  have run: "chunk_content env p content filename = Some ?chunks"
    using chunk_loop_closed_form [OF assms False] by (simp add: chunk_content_def token_total_def)
  have len: "int (length ?chunks) = spec_chunk_count p ?n"
    using f(1) by simp
  have start_mono: "window_start p k \<le> window_start p ?m" if "k \<le> ?m" for k
    using that s unfolding window_start_def by (intro mult_right_mono) simp_all
  have each: "chunk_index (meta (?chunks ! nat k)) = k \<and>
        0 \<le> window_start p k \<and> window_start p k < window_stop p ?n k \<and>
        chunk_text (?chunks ! nat k) =
          decode env (take (nat (window_stop p ?n k - window_start p k))
                        (drop (nat (window_start p k)) ?tokens)) \<and>
        token_count (meta (?chunks ! nat k)) = nat (window_stop p ?n k - window_start p k) \<and>
        (k + 1 < int (length ?chunks) \<longrightarrow>
           window_stop p ?n k = window_start p k + chunk_size p \<and>
           window_stop p ?n k - window_start p (k + 1) = chunk_overlap p) \<and>
        (k + 1 = int (length ?chunks) \<longrightarrow> window_stop p ?n k = ?n)"
    if k: "0 \<le> k" "k < int (length ?chunks)" for k
  proof -
    from k len have km: "k \<le> ?m" by simp
    have nth: "?chunks ! nat k = window_chunk env p filename ?tokens k"
      using k km by (simp add: nth_upto)
    have a0: "0 \<le> window_start p k"
      using k(1) s by (simp add: window_start_def)
    have an: "window_start p k < ?n"
      using start_mono [OF km] f(2) by linarith
    have ab: "window_start p k < window_stop p ?n k"
      using an w by (simp add: window_stop_def window_end_def)
    have bn: "window_stop p ?n k \<le> int (length ?tokens)"
      by (simp add: window_stop_def window_end_def nlen)
    have chunk: "?chunks ! nat k =
        make_chunk env filename ?tokens (window_start p k) (window_stop p ?n k) k"
      using nth by (simp add: window_chunk_def window_stop_def nlen)
    have ab': "window_start p k \<le> window_stop p ?n k" using ab by simp
    note flds = make_chunk_fields [OF a0 ab' bn, of env filename k]
    have mid: "window_stop p ?n k = window_start p k + chunk_size p \<and>
               window_stop p ?n k - window_start p (k + 1) = chunk_overlap p"
      if "k + 1 < int (length ?chunks)"
    proof -
      from that len have "k < ?m" by simp
      from f(4) [OF k(1) this] have "window_stop p ?n k = window_start p k + chunk_size p"
        by (simp add: window_stop_def window_end_def)
      then show ?thesis by (simp add: window_start_def stride_def algebra_simps)
    qed
    have fin: "window_stop p ?n k = ?n" if "k + 1 = int (length ?chunks)"
    proof -
      from that len have "k = ?m" by simp
      with f(3) show ?thesis by (simp add: window_stop_def window_end_def)
    qed
    show ?thesis
      unfolding chunk flds using a0 ab mid fin by blast
  qed
  have cover: "\<exists>k. 0 \<le> k \<and> k < int (length ?chunks) \<and>
                 window_start p k \<le> t \<and> t < window_stop p ?n k"
    if t: "0 \<le> t" "t < ?n" for t
  proof -
    from window_cover [OF s sw f(1) f(3) t]
    obtain k where "0 \<le> k" "k \<le> ?m" "window_start p k \<le> t" "t < window_stop p ?n k"
      by blast
    then show ?thesis unfolding len by (intro exI [of _ k]) simp
  qed
  have cnt: "int (length ?chunks) = (if ?n = 0 then 0 else spec_chunk_count p ?n)"
    using len n by simp
  show ?thesis
  proof (intro exI [of _ ?chunks] conjI allI impI)
    show "chunk_content env p content filename = Some ?chunks" by (rule run)
    show "int (length ?chunks) = (if ?n = 0 then 0 else spec_chunk_count p ?n)" by (rule cnt)
  qed (use each cover in blast)+
qed


theorem chunker_windows_witness:
  "0 \<le> chunk_overlap spec_processor \<and> chunk_overlap spec_processor < chunk_size spec_processor \<and>
   (\<exists>chunks. chunk_content char_env spec_processor (replicate 1000 CHR ''x'') ''a.txt'' = Some chunks \<and>
      length chunks = 2 \<and>
      chunk_index (meta (chunks ! 0)) = 0 \<and> token_count (meta (chunks ! 0)) = 800 \<and>
      chunk_index (meta (chunks ! 1)) = 1 \<and> token_count (meta (chunks ! 1)) = 300)"
proof -
  have h: "0 \<le> chunk_overlap spec_processor" "chunk_overlap spec_processor < chunk_size spec_processor"
    by (simp_all add: spec_processor_def)
  have tt: "token_total char_env (replicate 1000 CHR ''x'') = 1000"
    by (simp add: token_total_def char_env_def)
  have cnt: "spec_chunk_count spec_processor 1000 = 2"
    by (simp add: spec_chunk_count_def spec_processor_def)
  from chunker_windows [OF h, of char_env "replicate 1000 CHR ''x''" "''a.txt''"]
  obtain chunks where run: "chunk_content char_env spec_processor (replicate 1000 CHR ''x'') ''a.txt'' = Some chunks"
    and len: "int (length chunks) = 2"
    and each: "\<And>k. 0 \<le> k \<Longrightarrow> k < 2 \<Longrightarrow>
        chunk_index (meta (chunks ! nat k)) = k \<and>
        token_count (meta (chunks ! nat k)) = nat (window_stop spec_processor 1000 k - window_start spec_processor k)"
    unfolding tt cnt by auto
  have "token_count (meta (chunks ! 0)) = 800" "chunk_index (meta (chunks ! 0)) = 0"
    using each [of 0] by (simp_all add: window_stop_def window_start_def window_end_def stride_def spec_processor_def)
  moreover have "token_count (meta (chunks ! 1)) = 300" "chunk_index (meta (chunks ! 1)) = 1"
    using each [of 1] by (simp_all add: window_stop_def window_start_def window_end_def stride_def spec_processor_def)
  moreover have "length chunks = 2" using len by simp
  ultimately show ?thesis using h run by simp
qed

text \<open>
  The claim as written fails on the empty document: no chunk is produced, where the
  formula of the claim asks for one.
\<close>

theorem chunker_empty_counterexample:
  "chunk_content char_env spec_processor [] ''a.txt'' = Some [] \<and>
   spec_chunk_count spec_processor (token_total char_env []) = 1"
  by (simp add: chunk_content_def chunk_loop_done char_env_def spec_processor_def
      spec_chunk_count_def token_total_def)

text \<open>With a negative overlap the windows leave gaps: here the tokens \<open>fg\<close> are in no chunk.\<close>

lemma negative_overlap_leaves_gap:
  "map chunk_text (the (chunk_content char_env \<lparr>chunk_size = 5, chunk_overlap = - 2\<rparr>
       ''abcdefghijkl'' ''a.txt'')) = [''abcde'', ''hijkl'']"
  by code_simp

section \<open>Configurations the chunker accepts\<close>

text \<open>
  When the overlap is not below the window size and the text is longer than a window,
  \<open>start\<close> never moves forward and no window reaches the token count: the loop does not
  return.
\<close>

lemma chunk_loop_never_returns:
  assumes "chunk_loop env p filename tokens start index chunks = Some out"
    and "chunk_size p \<le> chunk_overlap p" and "start \<le> 0"
    and "0 < int (length tokens)" and "chunk_size p < int (length tokens)"
  shows False
  using assms
proof (induction env p filename tokens start index chunks out rule: chunk_loop.raw_induct)
  case (1 approx env p filename tokens start index chunks out)
  let ?stop = "window_end (chunk_size p) (int (length tokens)) start"
  let ?next = "start + (chunk_size p - chunk_overlap p)"
  let ?chunks = "chunks @ [make_chunk env filename tokens start ?stop index]"
  from "1.prems" have stop: "?stop \<noteq> int (length tokens)"
    unfolding window_end_def by linarith
  from "1.prems" have inside: "start < int (length tokens)" by linarith
  from "1.hyps" stop inside
  have "approx env p filename tokens ?next (index + 1) ?chunks = Some out"
    by (simp add: Let_def)
  moreover have "chunk_loop env p filename tokens ?next (index + 1) ?chunks = Some out"
    using "1.prems"(1) by (simp add: chunk_loop_step [OF inside stop])
  moreover have "?next \<le> 0"
    using "1.prems" by linarith
  ultimately show False using "1.prems" "1.IH" by blast
qed (rule assms(1))

lemma chunk_loop_diverges:
  assumes "chunk_size p \<le> chunk_overlap p" and "start \<le> 0"
    and "0 < int (length tokens)" and "chunk_size p < int (length tokens)"
  shows "chunk_loop env p filename tokens start index chunks = None"
  using chunk_loop_never_returns [OF _ assms] by (cases "chunk_loop env p filename tokens start index chunks") auto

lemma short_text_one_chunk:
  assumes "tokens \<noteq> []" and "int (length tokens) \<le> chunk_size p"
  shows "chunk_loop env p filename tokens 0 0 [] =
           Some [make_chunk env filename tokens 0 (int (length tokens)) 0]"
  using assms chunk_loop_last [of 0 tokens p env filename 0 "[]"]
  by (simp add: window_end_def)

text \<open>
  Claim C2, as the code has it. Neither the constructor nor the chunker checks the
  configuration, and no path raises a configuration error. Construction always succeeds;
  for \<open>O < W\<close> chunking returns a chunk list; for \<open>O \<ge> W\<close> it also returns normally
  whenever the text has at most \<open>W\<close> tokens: one chunk, or none for the empty text.
\<close>

theorem chunker_accepts_any_configuration:
  "DocumentProcessor w ov = Inr \<lparr>chunk_size = w, chunk_overlap = ov\<rparr> \<and>
   (ov < w \<longrightarrow>
      (\<exists>chunks. chunk_content env \<lparr>chunk_size = w, chunk_overlap = ov\<rparr> content filename = Some chunks)) \<and>
   (w \<le> ov \<and> token_total env content \<le> w \<longrightarrow>
      chunk_content env \<lparr>chunk_size = w, chunk_overlap = ov\<rparr> content filename =
        Some (if encode env content = [] then []
              else [make_chunk env filename (encode env content) 0 (token_total env content) 0]))"
proof (intro conjI impI)
  show "DocumentProcessor w ov = Inr \<lparr>chunk_size = w, chunk_overlap = ov\<rparr>"
    by (simp add: DocumentProcessor_def)
next
  assume "ov < w"
  then have "chunk_overlap \<lparr>chunk_size = w, chunk_overlap = ov\<rparr>
               < chunk_size \<lparr>chunk_size = w, chunk_overlap = ov\<rparr>" by simp
  from chunk_loop_terminates [OF this, of env filename "encode env content" 0 0 "[]"]
  show "\<exists>chunks. chunk_content env \<lparr>chunk_size = w, chunk_overlap = ov\<rparr> content filename = Some chunks"
    by (auto simp add: chunk_content_def)
next
  assume a: "w \<le> ov \<and> token_total env content \<le> w"
  show "chunk_content env \<lparr>chunk_size = w, chunk_overlap = ov\<rparr> content filename =
        Some (if encode env content = [] then []
              else [make_chunk env filename (encode env content) 0 (token_total env content) 0])"
  proof (cases "encode env content = []")
    case True
    then show ?thesis by (simp add: chunk_content_def chunk_loop_done)
  next
    case False
    with a show ?thesis
      by (simp add: chunk_content_def token_total_def short_text_one_chunk)
  qed
qed

theorem chunker_accepts_any_configuration_witness:
  "DocumentProcessor 5 5 = Inr \<lparr>chunk_size = 5, chunk_overlap = 5\<rparr> \<and>
   (100::int) < 800 \<and>
   (\<exists>chunks. chunk_content char_env \<lparr>chunk_size = 800, chunk_overlap = 100\<rparr> ''hello'' ''a.txt'' = Some chunks) \<and>
   (5::int) \<le> 5 \<and> token_total char_env ''abc'' \<le> 5 \<and>
   chunk_content char_env \<lparr>chunk_size = 5, chunk_overlap = 5\<rparr> ''abc'' ''a.txt'' =
     Some [make_chunk char_env ''a.txt'' ''abc'' 0 3 0]"
  using chunker_accepts_any_configuration [of 5 5 char_env "''abc''" "''a.txt''"]
    chunker_accepts_any_configuration [of 800 100 char_env "''hello''" "''a.txt''"]
  by (simp add: token_total_def char_env_def)

text \<open>
  The claim as written fails: with overlap equal to the window size the constructor
  returns a processor and the chunker returns a chunk, not an error.
\<close>

theorem chunker_bad_configuration_counterexample:
  "DocumentProcessor 5 5 = Inr \<lparr>chunk_size = 5, chunk_overlap = 5\<rparr> \<and>
   chunk_content char_env \<lparr>chunk_size = 5, chunk_overlap = 5\<rparr> ''abc'' ''a.txt'' =
     Some [\<lparr>chunk_id = ''a.txt_0'', chunk_text = ''abc'',
            meta = \<lparr>source = ''a.txt'', chunk_index = 0,
                     processed_date = ''2024-01-01T00:00:00'', token_count = 3\<rparr>\<rparr>]"
  by (simp add: DocumentProcessor_def chunk_content_def chunk_loop.simps char_env_def
      window_end_def make_chunk_def py_slice_def py_bound_def str_int_def str_nat.simps
      digit_char_def)

section \<open>Upsert\<close>

lemma upsert_keeps_ids: "row_id ` set (upsert r xs) = insert (row_id r) (row_id ` set xs)"
  by (induction xs) auto

lemma find_append_split:
  "List.find P (xs @ ys) = (case List.find P xs of None \<Rightarrow> List.find P ys | Some x \<Rightarrow> Some x)"
  by (induction xs) auto

lemma row_at_upsert:
  "row_at (upsert r xs) i = (if i = row_id r then Some r else row_at xs i)"
  by (induction xs) (auto simp add: row_at_def)

lemma upsert_distinct:
  "distinct (map row_id xs) \<Longrightarrow> distinct (map row_id (upsert r xs))"
proof (induction xs)
  case Nil
  then show ?case by simp
next
  case (Cons x xs)
  show ?case
  proof (cases "row_id x = row_id r")
    case True
    with Cons.prems show ?thesis by simp
  next
    case False
    from Cons.prems have "row_id x \<notin> row_id ` set xs" and "distinct (map row_id xs)" by simp_all
    with False Cons.IH have "row_id x \<notin> row_id ` set (upsert r xs)"
      and "distinct (map row_id (upsert r xs))"
      by (simp_all add: upsert_keeps_ids)
    with False show ?thesis by simp
  qed
qed

lemma last_write_Cons:
  "last_write (x # xs) i =
     (case last_write xs i of
        None \<Rightarrow> (if chunk_id x = i then Some x else None)
      | Some c \<Rightarrow> Some c)"
  by (auto simp add: last_write_def find_append_split split: option.splits)

lemma add_loop_table:
  "add_loop sv txn cs = Inr t \<Longrightarrow>
     row_at t i = (case last_write cs i of None \<Rightarrow> row_at txn i | Some c \<Rightarrow> written_row sv c) \<and>
     (distinct (map row_id txn) \<longrightarrow> distinct (map row_id t))"
proof (induction cs arbitrary: txn)
  case Nil
  then show ?case by (simp add: last_write_def)
next
  case (Cons x xs)
  from Cons.prems obtain emb where emb: "get_embedding sv (chunk_text x) = Inr emb"
    and rest: "add_loop sv (upsert (chunk_row x emb) txn) xs = Inr t"
    by (auto split: sum.splits if_splits)
  have rid: "row_id (chunk_row x emb) = chunk_id x" by (simp add: chunk_row_def)
  have wr: "written_row sv x = Some (chunk_row x emb)" by (simp add: written_row_def emb)
  from Cons.IH [OF rest] have
    at: "row_at t i = (case last_write xs i of
                          None \<Rightarrow> row_at (upsert (chunk_row x emb) txn) i
                        | Some c \<Rightarrow> written_row sv c)"
    and dist: "distinct (map row_id (upsert (chunk_row x emb) txn)) \<longrightarrow> distinct (map row_id t)"
    by blast+
  have "row_at t i = (case last_write (x # xs) i of
                         None \<Rightarrow> row_at txn i | Some c \<Rightarrow> written_row sv c)"
    unfolding at last_write_Cons
    by (cases "last_write xs i") (auto simp add: row_at_upsert rid wr)
  moreover have "distinct (map row_id txn) \<longrightarrow> distinct (map row_id t)"
    using dist upsert_distinct by blast
  ultimately show ?case by blast
qed

lemma in_set_row_at:
  "distinct (map row_id t) \<Longrightarrow> r \<in> set t \<longleftrightarrow> row_at t (row_id r) = Some r"
proof (induction t)
  case Nil
  then show ?case by (simp add: row_at_def)
next
  case (Cons x xs)
  then show ?case by (auto simp add: row_at_def)
qed

lemma add_loop_fails:
  "c \<in> set chunks \<Longrightarrow> step_fails sv c \<Longrightarrow> \<exists>e. add_loop sv txn chunks = Inl e"
proof (induction chunks arbitrary: txn)
  case Nil
  then show ?case by simp
next
  case (Cons x xs)
  show ?case
  proof (cases "step_fails sv x")
    case True
    then show ?thesis by (auto simp add: step_fails_def split: sum.splits)
  next
    case False
    with Cons.prems have "c \<in> set xs" by auto
    from Cons.IH [OF this Cons.prems(2)] False show ?thesis
      by (auto simp add: step_fails_def split: sum.splits)
  qed
qed

lemma upsert_has_id: "\<exists>x \<in> set (upsert r xs). row_id x = row_id r"
  by (induction xs) auto

lemma upsert_keeps_others: "x \<in> set xs \<Longrightarrow> row_id x \<noteq> row_id r \<Longrightarrow> x \<in> set (upsert r xs)"
  by (induction xs) auto

lemma add_loop_succeeds:
  "\<forall>c \<in> set chunks. \<not> step_fails sv c \<Longrightarrow>
     \<exists>t. add_loop sv txn chunks = Inr t \<and>
         row_id ` set t = row_id ` set txn \<union> chunk_id ` set chunks \<and>
         (\<forall>r \<in> set txn. row_id r \<notin> chunk_id ` set chunks \<longrightarrow> r \<in> set t)"
proof (induction chunks arbitrary: txn)
  case Nil
  then show ?case by simp
next
  case (Cons x xs)
  from Cons.prems have ok: "\<not> step_fails sv x" and rest: "\<forall>c \<in> set xs. \<not> step_fails sv c"
    by simp_all
  from ok obtain emb where emb: "get_embedding sv (chunk_text x) = Inr emb"
    and acc: "accepts sv (chunk_row x emb)"
    by (auto simp add: step_fails_def split: sum.splits)
  let ?txn = "upsert (chunk_row x emb) txn"
  from Cons.IH [OF rest, of ?txn] obtain t where
    t: "add_loop sv ?txn xs = Inr t"
    and ids: "row_id ` set t = row_id ` set ?txn \<union> chunk_id ` set xs"
    and keep: "\<forall>r \<in> set ?txn. row_id r \<notin> chunk_id ` set xs \<longrightarrow> r \<in> set t"
    by blast
  have rid: "row_id (chunk_row x emb) = chunk_id x" by (simp add: chunk_row_def)
  have "add_loop sv txn (x # xs) = Inr t" using emb acc t by simp
  moreover have "row_id ` set t = row_id ` set txn \<union> chunk_id ` set (x # xs)"
    using ids by (auto simp add: upsert_keeps_ids rid)
  moreover have "\<forall>r \<in> set txn. row_id r \<notin> chunk_id ` set (x # xs) \<longrightarrow> r \<in> set t"
  proof (intro ballI impI)
    fix r assume r: "r \<in> set txn" "row_id r \<notin> chunk_id ` set (x # xs)"
    then have "r \<in> set ?txn" by (intro upsert_keeps_others) (simp_all add: rid)
    with keep r show "r \<in> set t" by simp
  qed
  ultimately show ?case by blast
qed


lemma find_SomeD: "List.find P xs = Some x \<Longrightarrow> x \<in> set xs \<and> P x"
  by (induction xs) (auto split: if_splits)

lemma row_at_in_set: "row_at t i = Some r \<Longrightarrow> r \<in> set t \<and> row_id r = i"
  by (auto simp add: row_at_def dest: find_SomeD)

lemma last_write_exists:
  "c \<in> set chunks \<Longrightarrow>
     \<exists>c'. last_write chunks (chunk_id c) = Some c' \<and> c' \<in> set chunks \<and> chunk_id c' = chunk_id c"
proof -
  assume c: "c \<in> set chunks"
  then have "List.find (\<lambda>x. chunk_id x = chunk_id c) (rev chunks) \<noteq> None"
    by (auto simp add: find_None_iff)
  then obtain c' where f: "List.find (\<lambda>x. chunk_id x = chunk_id c) (rev chunks) = Some c'"
    by blast
  from find_SomeD [OF f] have "c' \<in> set chunks \<and> chunk_id c' = chunk_id c"
    by simp
  with f show ?thesis by (auto simp add: last_write_def)
qed

text \<open>
  Claim C1, as the code has it. The whole call is one transaction: when obtaining the
  embedding or writing the row fails for some chunk, the exception leaves
  \<^verbatim>\<open>add_documents\<close> before the commit and the committed table is the table from before
  the call, so no row of this call is kept. When no step fails, the row the table holds
  under an id is, for an id of the call, the id, text and metadata of the last chunk of
  the call with that id together with the embedding of its text, and for any other id the
  row it held before; ids stay unique.
\<close>

theorem add_documents_all_or_nothing:
  "(fst (add_documents sv table chunks) \<noteq> None \<longrightarrow> snd (add_documents sv table chunks) = table) \<and>
   ((\<exists>c \<in> set chunks. step_fails sv c) \<longrightarrow> fst (add_documents sv table chunks) \<noteq> None) \<and>
   (connect_ok sv \<and> (\<forall>c \<in> set chunks. \<not> step_fails sv c) \<longrightarrow>
      fst (add_documents sv table chunks) = None \<and>
      (\<forall>i. row_at (snd (add_documents sv table chunks)) i =
            (case last_write chunks i of
               None \<Rightarrow> row_at table i
             | Some c \<Rightarrow> written_row sv c)) \<and>
      (\<forall>c \<in> set chunks. \<exists>c' r.
          last_write chunks (chunk_id c) = Some c' \<and>
          r \<in> set (snd (add_documents sv table chunks)) \<and>
          row_at (snd (add_documents sv table chunks)) (chunk_id c) = Some r \<and>
          row_id r = chunk_id c \<and> row_content r = chunk_text c' \<and> row_meta r = meta c' \<and>
          get_embedding sv (chunk_text c') = Inr (embedding r)) \<and>
      (distinct (map row_id table) \<longrightarrow>
         distinct (map row_id (snd (add_documents sv table chunks)))) \<and>
      row_id ` set (snd (add_documents sv table chunks)) = row_id ` set table \<union> chunk_id ` set chunks \<and>
      (\<forall>r \<in> set table. row_id r \<notin> chunk_id ` set chunks \<longrightarrow>
         r \<in> set (snd (add_documents sv table chunks))))"
proof (intro conjI impI)
  assume "fst (add_documents sv table chunks) \<noteq> None"
  then show "snd (add_documents sv table chunks) = table"
    by (auto simp add: add_documents_def split: sum.splits if_splits)
next
  assume "\<exists>c \<in> set chunks. step_fails sv c"
  then obtain c where "c \<in> set chunks" "step_fails sv c" by blast
  from add_loop_fails [OF this, of table] show "fst (add_documents sv table chunks) \<noteq> None"
    by (auto simp add: add_documents_def)
next
  assume a: "connect_ok sv \<and> (\<forall>c \<in> set chunks. \<not> step_fails sv c)"
  from add_loop_succeeds [of chunks sv table] a obtain t where
    t: "add_loop sv table chunks = Inr t"
    and ids: "row_id ` set t = row_id ` set table \<union> chunk_id ` set chunks"
    and keep: "\<forall>r \<in> set table. row_id r \<notin> chunk_id ` set chunks \<longrightarrow> r \<in> set t"
    by blast
  from a t have run: "add_documents sv table chunks = (None, t)"
    by (simp add: add_documents_def)
  have at: "row_at t i = (case last_write chunks i of
                            None \<Rightarrow> row_at table i | Some c \<Rightarrow> written_row sv c)" for i
    using add_loop_table [OF t] by blast
  have dist: "distinct (map row_id table) \<longrightarrow> distinct (map row_id t)"
    using add_loop_table [OF t] by blast
  have written: "\<exists>c' r. last_write chunks (chunk_id c) = Some c' \<and> r \<in> set t \<and>
          row_at t (chunk_id c) = Some r \<and>
          row_id r = chunk_id c \<and> row_content r = chunk_text c' \<and> row_meta r = meta c' \<and>
          get_embedding sv (chunk_text c') = Inr (embedding r)"
    if c: "c \<in> set chunks" for c
  proof -
    from last_write_exists [OF c] obtain c' where lw: "last_write chunks (chunk_id c) = Some c'"
      and c': "c' \<in> set chunks" and same: "chunk_id c' = chunk_id c" by blast
    from a c' have "\<not> step_fails sv c'" by blast
    then obtain emb where emb: "get_embedding sv (chunk_text c') = Inr emb"
      by (auto simp add: step_fails_def split: sum.splits)
    then have "written_row sv c' = Some (chunk_row c' emb)" by (simp add: written_row_def)
    with at [of "chunk_id c"] lw have r: "row_at t (chunk_id c) = Some (chunk_row c' emb)" by simp
    from row_at_in_set [OF r] have "chunk_row c' emb \<in> set t" by simp
    with lw r emb same show ?thesis
      by (intro exI [of _ c'] exI [of _ "chunk_row c' emb"]) (simp add: chunk_row_def)
  qed
  show "fst (add_documents sv table chunks) = None" by (simp add: run)
  show "\<forall>i. row_at (snd (add_documents sv table chunks)) i =
            (case last_write chunks i of
               None \<Rightarrow> row_at table i
             | Some c \<Rightarrow> written_row sv c)"
    using at by (simp add: run)
  show "\<forall>c \<in> set chunks. \<exists>c' r.
          last_write chunks (chunk_id c) = Some c' \<and>
          r \<in> set (snd (add_documents sv table chunks)) \<and>
          row_at (snd (add_documents sv table chunks)) (chunk_id c) = Some r \<and>
          row_id r = chunk_id c \<and> row_content r = chunk_text c' \<and> row_meta r = meta c' \<and>
          get_embedding sv (chunk_text c') = Inr (embedding r)"
    using written by (simp add: run)
  show "distinct (map row_id (snd (add_documents sv table chunks)))"
    if "distinct (map row_id table)"
    using dist that by (simp add: run)
  show "row_id ` set (snd (add_documents sv table chunks)) = row_id ` set table \<union> chunk_id ` set chunks"
    by (simp add: run ids)
  show "\<forall>r \<in> set table. row_id r \<notin> chunk_id ` set chunks \<longrightarrow>
         r \<in> set (snd (add_documents sv table chunks))"
    using keep by (simp add: run)
qed

text \<open>
  The claim as written fails: the first chunk is written, the embedding of the second one
  fails, and the store does not hold the first chunk afterwards.
\<close>

theorem add_documents_rollback_counterexample:
  "step_fails demo_services (demo_chunk ''a.txt'' 1 ''bad'') \<and>
   \<not> step_fails demo_services (demo_chunk ''a.txt'' 0 ''good'') \<and>
   add_documents demo_services []
     [demo_chunk ''a.txt'' 0 ''good'', demo_chunk ''a.txt'' 1 ''bad''] =
     (Some EmbeddingServiceError, [])"
  by (simp add: add_documents_def step_fails_def get_embedding_def demo_services_def
      demo_chunk_def chunk_row_def)

theorem add_documents_all_or_nothing_witness:
  "fst (add_documents demo_services [] [demo_chunk ''a.txt'' 0 ''good'', demo_chunk ''a.txt'' 1 ''bad'']) \<noteq> None \<and>
   snd (add_documents demo_services [] [demo_chunk ''a.txt'' 0 ''good'', demo_chunk ''a.txt'' 1 ''bad'']) = [] \<and>
   connect_ok demo_services \<and>
   \<not> step_fails demo_services (demo_chunk ''a.txt'' 0 ''good'') \<and>
   fst (add_documents demo_services [] [demo_chunk ''a.txt'' 0 ''good'']) = None \<and>
   row_id ` set (snd (add_documents demo_services [] [demo_chunk ''a.txt'' 0 ''good''])) = {''a.txt_0''} \<and>
   \<not> step_fails demo_services (demo_chunk ''a.txt'' 0 ''new!'') \<and>
   row_at demo_table ''a.txt_0'' = Some (chunk_row (demo_chunk ''a.txt'' 0 ''alpha'') 5) \<and>
   row_at (snd (add_documents demo_services demo_table [demo_chunk ''a.txt'' 0 ''new!''])) ''a.txt_0'' =
     Some (chunk_row (demo_chunk ''a.txt'' 0 ''new!'') 4) \<and>
   row_at (snd (add_documents demo_services demo_table [demo_chunk ''a.txt'' 0 ''new!''])) ''b.txt_0'' =
     Some (chunk_row (demo_chunk ''b.txt'' 0 ''gam'') 3) \<and>
   distinct (map row_id demo_table) \<and>
   distinct (map row_id (snd (add_documents demo_services demo_table [demo_chunk ''a.txt'' 0 ''new!''])))"
proof -
  have bad: "step_fails demo_services (demo_chunk ''a.txt'' 1 ''bad'')"
    by (simp add: step_fails_def get_embedding_def demo_services_def demo_chunk_def)
  have good: "\<not> step_fails demo_services (demo_chunk ''a.txt'' 0 ''good'')"
    by (simp add: step_fails_def get_embedding_def demo_services_def demo_chunk_def)
  have fresh: "\<not> step_fails demo_services (demo_chunk ''a.txt'' 0 ''new!'')"
    by (simp add: step_fails_def get_embedding_def demo_services_def demo_chunk_def)
  have conn: "connect_ok demo_services" by (simp add: demo_services_def)
  have key: "chunk_id (demo_chunk ''a.txt'' 0 body) = ''a.txt_0''" for body
    by (simp add: demo_chunk_def generate_chunk_id_def chunk_key_def str_int_def str_nat.simps digit_char_def)
  have ids: "map row_id demo_table = [''a.txt_0'', ''a.txt_1'', ''b.txt_0'']"
    by (simp add: demo_table_def chunk_row_def demo_chunk_def generate_chunk_id_def chunk_key_def
        str_int_def str_nat.simps digit_char_def)
  have d0: "distinct (map row_id demo_table)" unfolding ids by simp
  have prev: "row_at demo_table ''a.txt_0'' = Some (chunk_row (demo_chunk ''a.txt'' 0 ''alpha'') 5)"
    by (simp add: row_at_def demo_table_def chunk_row_def key)
  have oldb: "row_at demo_table ''b.txt_0'' = Some (chunk_row (demo_chunk ''b.txt'' 0 ''gam'') 3)"
    by (simp add: row_at_def demo_table_def chunk_row_def demo_chunk_def generate_chunk_id_def
        chunk_key_def str_int_def str_nat.simps digit_char_def)
  have lw: "last_write [demo_chunk ''a.txt'' 0 ''new!''] ''a.txt_0'' = Some (demo_chunk ''a.txt'' 0 ''new!'')"
    by (simp add: last_write_def key)
  have lwb: "last_write [demo_chunk ''a.txt'' 0 ''new!''] ''b.txt_0'' = None"
    by (simp add: last_write_def key)
  have wr: "written_row demo_services (demo_chunk ''a.txt'' 0 ''new!'') =
              Some (chunk_row (demo_chunk ''a.txt'' 0 ''new!'') 4)"
    by (simp add: written_row_def get_embedding_def demo_services_def demo_chunk_def)
  from add_documents_all_or_nothing [of demo_services "[]"
      "[demo_chunk ''a.txt'' 0 ''good'', demo_chunk ''a.txt'' 1 ''bad'']"] bad
  have 1: "fst (add_documents demo_services [] [demo_chunk ''a.txt'' 0 ''good'', demo_chunk ''a.txt'' 1 ''bad'']) \<noteq> None"
    and 2: "snd (add_documents demo_services [] [demo_chunk ''a.txt'' 0 ''good'', demo_chunk ''a.txt'' 1 ''bad'']) = []"
    by simp_all
  from add_documents_all_or_nothing [of demo_services "[]" "[demo_chunk ''a.txt'' 0 ''good'']"] good conn
  have 3: "fst (add_documents demo_services [] [demo_chunk ''a.txt'' 0 ''good'']) = None"
    and 4: "row_id ` set (snd (add_documents demo_services [] [demo_chunk ''a.txt'' 0 ''good''])) = {''a.txt_0''}"
    by (simp_all add: key)
  from add_documents_all_or_nothing [of demo_services demo_table "[demo_chunk ''a.txt'' 0 ''new!'']"]
    fresh conn
  have at: "\<forall>i. row_at (snd (add_documents demo_services demo_table [demo_chunk ''a.txt'' 0 ''new!''])) i =
            (case last_write [demo_chunk ''a.txt'' 0 ''new!''] i of
               None \<Rightarrow> row_at demo_table i
             | Some c \<Rightarrow> written_row demo_services c)"
    and dist: "distinct (map row_id demo_table) \<longrightarrow>
         distinct (map row_id (snd (add_documents demo_services demo_table [demo_chunk ''a.txt'' 0 ''new!''])))"
    by simp_all
  from at lw wr have 5: "row_at (snd (add_documents demo_services demo_table [demo_chunk ''a.txt'' 0 ''new!''])) ''a.txt_0'' =
     Some (chunk_row (demo_chunk ''a.txt'' 0 ''new!'') 4)"
    by simp
  from at lwb oldb have 6: "row_at (snd (add_documents demo_services demo_table [demo_chunk ''a.txt'' 0 ''new!''])) ''b.txt_0'' =
     Some (chunk_row (demo_chunk ''b.txt'' 0 ''gam'') 3)"
    by simp
  from dist d0 have 7: "distinct (map row_id (snd (add_documents demo_services demo_table [demo_chunk ''a.txt'' 0 ''new!''])))"
    by blast
  show ?thesis
    by (intro conjI) (rule 1 2 3 4 5 6 7 good fresh conn prev d0)+
qed

section \<open>Lookup by id\<close>

lemma demo_ids:
  "generate_chunk_id (\<lambda>s. s) ''a.txt'' 0 = ''a.txt_0''"
  "generate_chunk_id (\<lambda>s. s) ''a.txt'' 1 = ''a.txt_1''"
  "generate_chunk_id (\<lambda>s. s) ''b.txt'' 0 = ''b.txt_0''"
  by (simp_all add: generate_chunk_id_def chunk_key_def str_int_def str_nat.simps digit_char_def)

text \<open>
  Claim C7. \<^verbatim>\<open>get_chunks_by_ids\<close> on the empty list returns the empty list whether or not
  the database can be reached, so without any store access. On a reachable store it
  returns exactly the payloads of the stored rows whose id is in the list: id, text and
  metadata of the row, and no embedding (the payload type has no such field); an id that
  no row has is absent from the result and raises no error.
\<close>

theorem get_chunks_by_ids_exact:
  "get_chunks_by_ids sv table [] = Inr [] \<and>
   (connect_ok sv \<longrightarrow>
      (\<exists>cs. get_chunks_by_ids sv table ids = Inr cs \<and>
         (\<forall>c. c \<in> set cs \<longleftrightarrow> (\<exists>r \<in> set table. row_id r \<in> set ids \<and> c = row_chunk r)) \<and>
         (\<forall>c \<in> set cs. \<exists>r \<in> set table.
            chunk_id c = row_id r \<and> chunk_text c = row_content r \<and> meta c = row_meta r) \<and>
         length cs = length (filter (\<lambda>r. row_id r \<in> set ids) table) \<and>
         (\<forall>i \<in> set ids. i \<notin> row_id ` set table \<longrightarrow> i \<notin> chunk_id ` set cs)))"
proof (intro conjI impI)
  show "get_chunks_by_ids sv table [] = Inr []" by (simp add: get_chunks_by_ids_def)
next
  assume conn: "connect_ok sv"
  let ?cs = "map row_chunk (filter (\<lambda>r. row_id r \<in> set ids) table)"
  have run: "get_chunks_by_ids sv table ids = Inr ?cs"
    using conn by (simp add: get_chunks_by_ids_def)
  have mem: "\<forall>c. c \<in> set ?cs \<longleftrightarrow> (\<exists>r \<in> set table. row_id r \<in> set ids \<and> c = row_chunk r)"
    by auto
  have flds: "\<forall>c \<in> set ?cs. \<exists>r \<in> set table.
            chunk_id c = row_id r \<and> chunk_text c = row_content r \<and> meta c = row_meta r"
    by (auto simp add: row_chunk_def)
  have absent: "\<forall>i \<in> set ids. i \<notin> row_id ` set table \<longrightarrow> i \<notin> chunk_id ` set ?cs"
    by (auto simp add: row_chunk_def)
  from run mem flds absent show "\<exists>cs. get_chunks_by_ids sv table ids = Inr cs \<and>
         (\<forall>c. c \<in> set cs \<longleftrightarrow> (\<exists>r \<in> set table. row_id r \<in> set ids \<and> c = row_chunk r)) \<and>
         (\<forall>c \<in> set cs. \<exists>r \<in> set table.
            chunk_id c = row_id r \<and> chunk_text c = row_content r \<and> meta c = row_meta r) \<and>
         length cs = length (filter (\<lambda>r. row_id r \<in> set ids) table) \<and>
         (\<forall>i \<in> set ids. i \<notin> row_id ` set table \<longrightarrow> i \<notin> chunk_id ` set cs)"
    by (intro exI [of _ ?cs]) simp
qed

theorem get_chunks_by_ids_exact_witness:
  "connect_ok demo_services \<and>
   (\<exists>cs. get_chunks_by_ids demo_services demo_table [''a.txt_1'', ''missing''] = Inr cs \<and>
      length cs = 1 \<and> ''a.txt_1'' \<in> chunk_id ` set cs \<and> ''missing'' \<notin> chunk_id ` set cs)"
proof -
  have conn: "connect_ok demo_services" by (simp add: demo_services_def)
  from get_chunks_by_ids_exact [of demo_services demo_table "[''a.txt_1'', ''missing'']"] conn
  obtain cs where run: "get_chunks_by_ids demo_services demo_table [''a.txt_1'', ''missing''] = Inr cs"
    and mem: "\<forall>c. c \<in> set cs \<longleftrightarrow>
        (\<exists>r \<in> set demo_table. row_id r \<in> set [''a.txt_1'', ''missing''] \<and> c = row_chunk r)"
    and len: "length cs = length (filter (\<lambda>r. row_id r \<in> set [''a.txt_1'', ''missing'']) demo_table)"
    and absent: "\<forall>i \<in> set [''a.txt_1'', ''missing''].
        i \<notin> row_id ` set demo_table \<longrightarrow> i \<notin> chunk_id ` set cs"
    by blast
  have ids: "map row_id demo_table = [''a.txt_0'', ''a.txt_1'', ''b.txt_0'']"
    by (simp add: demo_table_def chunk_row_def demo_chunk_def demo_ids)
  have idset: "row_id ` set demo_table = set [''a.txt_0'', ''a.txt_1'', ''b.txt_0'']"
    unfolding ids [symmetric] by simp
  have n: "length cs = 1"
    using len by (simp add: demo_table_def chunk_row_def demo_chunk_def demo_ids)
  have "''missing'' \<notin> row_id ` set demo_table"
    unfolding idset by simp
  then have miss: "''missing'' \<notin> chunk_id ` set cs" using absent by simp
  have r1: "chunk_row (demo_chunk ''a.txt'' 1 ''be'') (2::int) \<in> set demo_table"
    by (simp add: demo_table_def)
  have id1: "row_id (chunk_row (demo_chunk ''a.txt'' 1 ''be'') (2::int)) = ''a.txt_1''"
    by (simp add: chunk_row_def demo_chunk_def demo_ids)
  have "row_chunk (chunk_row (demo_chunk ''a.txt'' 1 ''be'') (2::int)) \<in> set cs"
    using mem r1 id1 by auto
  moreover have "chunk_id (row_chunk (chunk_row (demo_chunk ''a.txt'' 1 ''be'') (2::int))) = ''a.txt_1''"
    using id1 by (simp add: row_chunk_def)
  ultimately have hit: "''a.txt_1'' \<in> chunk_id ` set cs" by (metis imageI)
  show ?thesis using conn run n miss hit by blast
qed

section \<open>Delete by source\<close>

text \<open>
  Claim C8. On a reachable store \<^verbatim>\<open>delete_document\<close> removes exactly the rows whose
  \<open>metadata.source\<close> is the given name and keeps every other row, in order; it changes
  nothing when no row matches; afterwards \<^verbatim>\<open>get_all_documents\<close> lists every other
  source once and does not list the name.
\<close>

theorem delete_document_exact:
  "connect_ok sv \<longrightarrow>
     (\<exists>t. delete_document sv table name = (None, t) \<and>
        set t = {r \<in> set table. source (row_meta r) \<noteq> name} \<and>
        t = filter (\<lambda>r. source (row_meta r) \<noteq> name) table \<and>
        ((\<forall>r \<in> set table. source (row_meta r) \<noteq> name) \<longrightarrow> t = table) \<and>
        (\<exists>srcs. get_all_documents sv t = Inr srcs \<and> name \<notin> set srcs \<and> distinct srcs \<and>
           set srcs = (\<lambda>r. source (row_meta r)) ` set table - {name}))"
proof
  assume conn: "connect_ok sv"
  let ?t = "filter (\<lambda>r. source (row_meta r) \<noteq> name) table"
  let ?srcs = "remdups (map (\<lambda>r. source (row_meta r)) ?t)"
  have run: "delete_document sv table name = (None, ?t)"
    using conn by (simp add: delete_document_def)
  have rows: "set ?t = {r \<in> set table. source (row_meta r) \<noteq> name}" by auto
  have noop: "(\<forall>r \<in> set table. source (row_meta r) \<noteq> name) \<longrightarrow> ?t = table"
    by (simp add: filter_id_conv)
  have list: "get_all_documents sv ?t = Inr ?srcs"
    using conn by (simp add: get_all_documents_def)
  have gone: "name \<notin> set ?srcs" by auto
  have others: "set ?srcs = (\<lambda>r. source (row_meta r)) ` set table - {name}" by auto
  have "\<exists>srcs. get_all_documents sv ?t = Inr srcs \<and> name \<notin> set srcs \<and> distinct srcs \<and>
           set srcs = (\<lambda>r. source (row_meta r)) ` set table - {name}"
    using list gone others by (intro exI [of _ ?srcs]) simp
  with run rows noop show "\<exists>t. delete_document sv table name = (None, t) \<and>
        set t = {r \<in> set table. source (row_meta r) \<noteq> name} \<and>
        t = filter (\<lambda>r. source (row_meta r) \<noteq> name) table \<and>
        ((\<forall>r \<in> set table. source (row_meta r) \<noteq> name) \<longrightarrow> t = table) \<and>
        (\<exists>srcs. get_all_documents sv t = Inr srcs \<and> name \<notin> set srcs \<and> distinct srcs \<and>
           set srcs = (\<lambda>r. source (row_meta r)) ` set table - {name})"
    by (intro exI [of _ ?t]) simp
qed

theorem delete_document_exact_witness:
  "connect_ok demo_services \<and>
   delete_document demo_services demo_table ''a.txt'' =
     (None, [chunk_row (demo_chunk ''b.txt'' 0 ''gam'') 3]) \<and>
   get_all_documents demo_services [chunk_row (demo_chunk ''b.txt'' 0 ''gam'') 3] = Inr [''b.txt''] \<and>
   ''c.txt'' \<notin> (\<lambda>r. source (row_meta r)) ` set demo_table \<and>
   delete_document demo_services demo_table ''c.txt'' = (None, demo_table)"
proof -
  have conn: "connect_ok demo_services" by (simp add: demo_services_def)
  from delete_document_exact [of demo_services demo_table "''a.txt''"] conn
  have 1: "delete_document demo_services demo_table ''a.txt'' =
     (None, [chunk_row (demo_chunk ''b.txt'' 0 ''gam'') 3])"
    by (auto simp add: demo_table_def chunk_row_def demo_chunk_def)
  have 2: "get_all_documents demo_services [chunk_row (demo_chunk ''b.txt'' 0 ''gam'') 3] = Inr [''b.txt'']"
    by (simp add: get_all_documents_def demo_services_def chunk_row_def demo_chunk_def)
  have 3: "\<forall>r \<in> set demo_table. source (row_meta r) \<noteq> ''c.txt''"
    by (simp add: demo_table_def chunk_row_def demo_chunk_def)
  from delete_document_exact [of demo_services demo_table "''c.txt''"] conn 3
  have 4: "delete_document demo_services demo_table ''c.txt'' = (None, demo_table)"
    by auto
  from 3 have 5: "''c.txt'' \<notin> (\<lambda>r. source (row_meta r)) ` set demo_table" by auto
  from conn 1 2 5 4 show ?thesis by blast
qed

section \<open>Similarity query\<close>




section \<open>Chunk ids determine source and index\<close>

text \<open>
  The string \<open>filename_index\<close> determines both parts: the decimal rendering of an
  integer is injective and holds no underscore, so the last underscore of the key splits
  it.
\<close>

lemma digit_char_inj: "a < 10 \<Longrightarrow> b < 10 \<Longrightarrow> digit_char a = digit_char b \<Longrightarrow> a = b"
proof -
  assume a: "a < 10" and b: "b < 10" and eq: "digit_char a = digit_char b"
  have d: "distinct ''0123456789''" by simp
  have l: "length ''0123456789'' = 10" by simp
  from eq show "a = b"
    unfolding digit_char_def using d a b l by (simp only: nth_eq_iff_index_eq)
qed

lemma digit_char_in: "d < 10 \<Longrightarrow> digit_char d \<in> set ''0123456789''"
  unfolding digit_char_def by (rule nth_mem) simp

lemma str_nat_digits: "set (str_nat n) \<subseteq> set ''0123456789''"
proof (induction n rule: str_nat.induct)
  case (1 n)
  show ?case
  proof (cases "n < 10")
    case True
    then show ?thesis using digit_char_in [of n] by (subst str_nat.simps) simp
  next
    case False
    have "n mod 10 < 10" by simp
    from digit_char_in [OF this] "1" [OF False] False show ?thesis
      by (subst str_nat.simps) simp
  qed
qed

lemma str_nat_nonempty: "str_nat n \<noteq> []"
  by (subst str_nat.simps) simp

lemma str_nat_inj: "str_nat n = str_nat m \<Longrightarrow> n = m"
proof (induction n arbitrary: m rule: str_nat.induct)
  case (1 n)
  show ?case
  proof (cases "n < 10")
    case small: True
    show ?thesis
    proof (cases "m < 10")
      case True
      with small "1.prems" show ?thesis
        by (simp add: str_nat.simps [of n] str_nat.simps [of m] digit_char_inj)
    next
      case False
      with small "1.prems" str_nat_nonempty [of "m div 10"] show ?thesis
        by (simp add: str_nat.simps [of n] str_nat.simps [of m])
    qed
  next
    case big: False
    show ?thesis
    proof (cases "m < 10")
      case True
      with big "1.prems" str_nat_nonempty [of "n div 10"] show ?thesis
        by (simp add: str_nat.simps [of n] str_nat.simps [of m])
    next
      case False
      with big "1.prems" have hi: "str_nat (n div 10) = str_nat (m div 10)"
        and lo: "digit_char (n mod 10) = digit_char (m mod 10)"
        by (simp_all add: str_nat.simps [of n] str_nat.simps [of m])
      from "1.IH" [OF big hi] have "n div 10 = m div 10" .
      moreover from lo have "n mod 10 = m mod 10" by (intro digit_char_inj) simp_all
      ultimately show ?thesis by (metis div_mult_mod_eq)
    qed
  qed
qed

lemma str_int_no_underscore: "CHR ''_'' \<notin> set (str_int i)"
  using str_nat_digits [of "nat i"] str_nat_digits [of "nat (- i)"]
  by (auto simp add: str_int_def)

lemma str_nat_no_minus: "CHR ''-'' \<notin> set (str_nat n)"
  using str_nat_digits [of n] by auto

lemma str_int_inj: "str_int i = str_int j \<Longrightarrow> i = j"
proof -
  assume eq: "str_int i = str_int j"
  have hd_nat: "\<And>n. hd (str_nat n) \<noteq> CHR ''-''"
    using str_nat_no_minus str_nat_nonempty by (metis hd_in_set)
  show "i = j"
  proof (cases "i < 0")
    case ineg: True
    show ?thesis
    proof (cases "j < 0")
      case True
      with ineg eq have "str_nat (nat (- i)) = str_nat (nat (- j))" by (simp add: str_int_def)
      then have "nat (- i) = nat (- j)" by (rule str_nat_inj)
      with ineg True show ?thesis by simp
    next
      case False
      with ineg eq have "CHR ''-'' # str_nat (nat (- i)) = str_nat (nat j)" by (simp add: str_int_def)
      then have "hd (str_nat (nat j)) = CHR ''-''" by (metis list.sel(1))
      with hd_nat show ?thesis by blast
    qed
  next
    case ipos: False
    show ?thesis
    proof (cases "j < 0")
      case True
      with ipos eq have "str_nat (nat i) = CHR ''-'' # str_nat (nat (- j))" by (simp add: str_int_def)
      then have "hd (str_nat (nat i)) = CHR ''-''" by (metis list.sel(1))
      with hd_nat show ?thesis by blast
    next
      case False
      with ipos eq have "str_nat (nat i) = str_nat (nat j)" by (simp add: str_int_def)
      then have "nat i = nat j" by (rule str_nat_inj)
      with ipos False show ?thesis by simp
    qed
  qed
qed

lemma split_at_first:
  "x \<notin> set xs \<Longrightarrow> x \<notin> set xs' \<Longrightarrow> xs @ x # ys = xs' @ x # ys' \<Longrightarrow> xs = xs' \<and> ys = ys'"
proof (induction xs arbitrary: xs')
  case Nil
  then show ?case by (cases xs') auto
next
  case (Cons a as)
  then show ?case by (cases xs') auto
qed

lemma chunk_key_inj:
  assumes "chunk_key s i = chunk_key s' i'"
  shows "s = s' \<and> i = i'"
proof -
  from assms have "rev (chunk_key s i) = rev (chunk_key s' i')" by simp
  then have "rev (str_int i) @ CHR ''_'' # rev s = rev (str_int i') @ CHR ''_'' # rev s'"
    by (simp add: chunk_key_def)
  moreover have "CHR ''_'' \<notin> set (rev (str_int i))" "CHR ''_'' \<notin> set (rev (str_int i'))"
    using str_int_no_underscore by simp_all
  ultimately have "rev (str_int i) = rev (str_int i') \<and> rev s = rev s'"
    by (intro split_at_first [of "CHR ''_''"])
  then show ?thesis using str_int_inj by simp
qed

lemma generate_chunk_id_inj:
  "inj md5 \<Longrightarrow> generate_chunk_id md5 s i = generate_chunk_id md5 s' i' \<Longrightarrow> s = s' \<and> i = i'"
  by (auto simp add: generate_chunk_id_def dest: injD chunk_key_inj)

section \<open>Context expansion\<close>

























section \<open>Unsupported files\<close>

lemma path_name_examples:
  "path_name ''/tmp/val/NOTES.TXT/'' = ''NOTES.TXT''"
  "path_name ''/tmp/tmpk3x9_doc.txt'' = ''tmpk3x9_doc.txt''"
  "path_name ''a/b/.'' = ''b''"
  "path_name ''/'' = []"
  by (simp_all add: path_name_def path_parts_def)

lemma extract_text_unsupported:
  "lower (suffix_of (path_name path)) \<notin> set supported_suffixes \<Longrightarrow>
     extract_text fs path = Inl ValueError"
  by (simp add: extract_text_def supported_suffixes_def Let_def)

lemma process_file_unsupported:
  assumes "file_exists fs path"
    and "lower (suffix_of (path_name path)) \<notin> set supported_suffixes"
  shows "process_file env p fs path = Some (Inr [])"
  using assms by (simp add: process_file_def extract_text_unsupported)

lemma process_uploads_skip:
  assumes "\<And>t. ingest_upload env p fs sv t u = Some (NoContent, t)"
  shows "process_uploads env p fs sv table (us1 @ u # us2) =
           map_option (\<lambda>(sts, t). (take (length us1) sts @ NoContent # drop (length us1) sts, t))
             (process_uploads env p fs sv table (us1 @ us2))"
proof (induction us1 arbitrary: table)
  case Nil
  show ?case by (simp add: assms split: option.splits)
next
  case (Cons v vs)
  show ?case
    by (simp add: Cons.IH split: option.splits prod.splits)
qed

text \<open>
  Claim C6, as the code has it. For a file that exists and whose extension is not one of
  pdf, docx, txt, md, html, \<^verbatim>\<open>process_file\<close> raises nothing: the unsupported-type error
  is raised and caught inside it, and the result is the empty chunk list. The upload loop
  then reports that the file has no content, leaves the store as it was, and handles the
  other files of the batch exactly as if the file were not there.
\<close>

theorem unsupported_file_is_skipped:
  assumes "file_exists fs (tmp_path u)"
    and "lower (suffix_of (path_name (tmp_path u))) \<notin> set supported_suffixes"
  shows "process_file env p fs (tmp_path u) = Some (Inr []) \<and>
         ingest_upload env p fs sv table u = Some (NoContent, table) \<and>
         process_uploads env p fs sv table (us1 @ u # us2) =
           map_option (\<lambda>(sts, t). (take (length us1) sts @ NoContent # drop (length us1) sts, t))
             (process_uploads env p fs sv table (us1 @ us2))"
proof -
  have pf: "process_file env p fs (tmp_path u) = Some (Inr [])"
    using assms by (rule process_file_unsupported)
  have one: "ingest_upload env p fs sv t u = Some (NoContent, t)" for t
    by (simp add: ingest_upload_def pf)
  from pf one [of table] process_uploads_skip [of env p fs sv u table us1 us2, OF one]
  show ?thesis by simp
qed

lemma demo_process_doc:
  "process_file char_env spec_processor demo_files ''/tmp/tmpk3x9_doc.txt'' =
     Some (Inr [\<lparr>chunk_id = ''tmpk3x9_doc.txt_0'', chunk_text = ''hello'',
                 meta = \<lparr>source = ''tmpk3x9_doc.txt'', chunk_index = 0,
                          processed_date = ''2024-01-01T00:00:00'', token_count = 5\<rparr>\<rparr>])"
  by (simp add: process_file_def extract_text_def demo_files_def lower_def lower_char_def
      suffix_of_def path_name_def path_parts_def chunk_content_def chunk_loop.simps char_env_def
      spec_processor_def window_end_def make_chunk_def py_slice_def py_bound_def
      str_int_def str_nat.simps digit_char_def)

lemma demo_ingest_doc:
  "ingest_upload char_env spec_processor demo_files demo_services [] doc_upload =
     Some (Indexed 1,
       [\<lparr>row_id = ''tmpk3x9_doc.txt_0'', row_content = ''hello'',
          row_meta = \<lparr>source = ''doc.txt'', chunk_index = 0,
                       processed_date = ''2024-01-01T00:00:00'', token_count = 5\<rparr>,
          embedding = 5\<rparr>])"
  by (simp add: ingest_upload_def doc_upload_def demo_process_doc set_source_def
      add_documents_def get_embedding_def demo_services_def chunk_row_def)

theorem unsupported_file_is_skipped_witness:
  "file_exists demo_files (tmp_path bad_upload) \<and>
   lower (suffix_of (path_name (tmp_path bad_upload))) \<notin> set supported_suffixes \<and>
   process_file char_env spec_processor demo_files (tmp_path bad_upload) = Some (Inr []) \<and>
   ingest_upload char_env spec_processor demo_files demo_services demo_table bad_upload =
     Some (NoContent, demo_table) \<and>
   process_uploads char_env spec_processor demo_files demo_services ([] :: int row list)
       [doc_upload, bad_upload, doc_upload] =
     map_option (\<lambda>(sts, t). (take 1 sts @ NoContent # drop 1 sts, t))
       (process_uploads char_env spec_processor demo_files demo_services []
          [doc_upload, doc_upload])"
proof -
  have ex: "file_exists demo_files (tmp_path bad_upload)"
    by (simp add: demo_files_def bad_upload_def)
  have un: "lower (suffix_of (path_name (tmp_path bad_upload))) \<notin> set supported_suffixes"
    by (simp add: bad_upload_def supported_suffixes_def lower_def lower_char_def
        suffix_of_def path_name_def path_parts_def)
  from unsupported_file_is_skipped [OF ex un, of char_env spec_processor demo_services demo_table
      "[doc_upload]" "[doc_upload]"]
    unsupported_file_is_skipped [OF ex un, of char_env spec_processor demo_services "[] :: int row list"
      "[doc_upload]" "[doc_upload]"]
  show ?thesis using ex un by simp
qed

text \<open>
  The claim as written fails: an unsupported file and a text file with no content give
  the same result, the empty list, and neither gives an error.
\<close>

theorem unsupported_file_counterexample:
  "lower (suffix_of (path_name ''/tmp/notes.xyz'')) = ''.xyz'' \<and>
   process_file char_env spec_processor demo_files ''/tmp/notes.xyz'' = Some (Inr []) \<and>
   read_text demo_files ''/tmp/empty.txt'' = Inr [] \<and>
   process_file char_env spec_processor demo_files ''/tmp/empty.txt'' = Some (Inr [])"
  by (simp add: process_file_def extract_text_def demo_files_def lower_def lower_char_def
      suffix_of_def path_name_def path_parts_def chunk_content_def chunk_loop_done char_env_def)


section \<open>Ids of ingested chunks\<close>

text \<open>
  Every chunk the chunker returns has the id the retriever computes for its source and
  chunk index.
\<close>

lemma make_chunk_derived_id:
  "derived_id (md5_hex env) filename (make_chunk env filename tokens start stop index)"
  by (simp add: derived_id_def make_chunk_def Let_def generate_chunk_id_def chunk_key_def)

lemma chunk_loop_derived_ids:
  assumes "chunk_loop env p filename tokens start index chunks = Some out"
    and "\<forall>c \<in> set chunks. derived_id (md5_hex env) filename c"
  shows "\<forall>c \<in> set out. derived_id (md5_hex env) filename c"
  using assms
proof (induction env p filename tokens start index chunks out rule: chunk_loop.raw_induct)
  case (1 approx env p filename tokens start index chunks out)
  let ?stop = "window_end (chunk_size p) (int (length tokens)) start"
  let ?chunks = "chunks @ [make_chunk env filename tokens start ?stop index]"
  have next_ok: "\<forall>c \<in> set ?chunks. derived_id (md5_hex env) filename c"
    using "1.prems"(2) by (simp add: make_chunk_derived_id)
  show ?case
  proof (cases "start < int (length tokens)")
    case False
    with "1.hyps" "1.prems"(2) show ?thesis by (simp add: Let_def)
  next
    case inside: True
    show ?thesis
    proof (cases "?stop = int (length tokens)")
      case True
      with inside "1.hyps" have "out = ?chunks" by (simp add: Let_def)
      with next_ok show ?thesis by simp
    next
      case False
      let ?next = "start + (chunk_size p - chunk_overlap p)"
      from inside False "1.hyps"
      have a: "approx env p filename tokens ?next (index + 1) ?chunks = Some out"
        by (simp add: Let_def)
      have b: "chunk_loop env p filename tokens ?next (index + 1) ?chunks = Some out"
        using "1.prems"(1) by (simp add: chunk_loop_step [OF inside False])
      from "1.IH" [OF a b next_ok] show ?thesis .
    qed
  qed
qed (rule assms(1))

lemma chunk_content_derived_ids:
  assumes "chunk_content env p content filename = Some chunks"
  shows "\<forall>c \<in> set chunks. derived_id (md5_hex env) filename c"
  using chunk_loop_derived_ids [of env p filename "encode env content" 0 0 "[]" chunks] assms
  by (simp add: chunk_content_def)


lemma upsert_subset: "set (upsert r xs) \<subseteq> insert r (set xs)"
  by (induction xs) auto

lemma add_loop_rows:
  "add_loop sv txn cs = Inr t \<Longrightarrow>
     row_id ` set t = row_id ` set txn \<union> chunk_id ` set cs \<and>
     (\<forall>r \<in> set t. r \<in> set txn \<or> (\<exists>c \<in> set cs. \<exists>emb. r = chunk_row c emb))"
proof (induction cs arbitrary: txn)
  case Nil
  then show ?case by simp
next
  case (Cons x xs)
  from Cons.prems obtain emb where
    rest: "add_loop sv (upsert (chunk_row x emb) txn) xs = Inr t"
    by (auto split: sum.splits if_splits)
  from Cons.IH [OF rest] have
    ids: "row_id ` set t = row_id ` set (upsert (chunk_row x emb) txn) \<union> chunk_id ` set xs"
    and rows: "\<forall>r \<in> set t. r \<in> set (upsert (chunk_row x emb) txn) \<or>
                 (\<exists>c \<in> set xs. \<exists>emb. r = chunk_row c emb)"
    by blast+
  have rid: "row_id (chunk_row x emb) = chunk_id x" by (simp add: chunk_row_def)
  have "row_id ` set t = row_id ` set txn \<union> chunk_id ` set (x # xs)"
    using ids by (auto simp add: upsert_keeps_ids rid)
  moreover have "\<forall>r \<in> set t. r \<in> set txn \<or> (\<exists>c \<in> set (x # xs). \<exists>emb. r = chunk_row c emb)"
  proof
    fix r assume "r \<in> set t"
    with rows have "r \<in> set (upsert (chunk_row x emb) txn) \<or>
                 (\<exists>c \<in> set xs. \<exists>emb. r = chunk_row c emb)" by blast
    then show "r \<in> set txn \<or> (\<exists>c \<in> set (x # xs). \<exists>emb. r = chunk_row c emb)"
      using upsert_subset [of "chunk_row x emb" txn] by auto
  qed
  ultimately show ?case by blast
qed

lemma process_file_derived_ids:
  assumes "process_file env p fs path = Some (Inr chunks)"
  shows "\<forall>c \<in> set chunks. derived_id (md5_hex env) (path_name path) c"
proof (cases "extract_text fs path")
  case (Inl e)
  with assms have "chunks = []" by (auto simp add: process_file_def split: if_splits)
  then show ?thesis by simp
next
  case (Inr content)
  with assms have "chunk_content env p content (path_name path) = Some chunks"
    by (auto simp add: process_file_def split: if_splits option.splits)
  then show ?thesis by (rule chunk_content_derived_ids)
qed

text \<open>
  Claim C3 fails on the ingestion path. The chunker runs on the temporary file, so the id
  of a chunk is the hash of the temporary file's name and the chunk index; the upload loop
  then sets the source to the uploaded name and keeps the id. For a hash with no collision
  among the keys of the two names, and a temporary name that differs from the uploaded
  name, every row an upload stores in an empty store has an id that is not the chunk id
  of its own source and chunk index.
\<close>

theorem ingested_rows_keep_temporary_id:
  assumes inj: "inj_on (md5_hex env)
                  (range (chunk_key (path_name (tmp_path u))) \<union> range (chunk_key (upload_name u)))"
    and names: "path_name (tmp_path u) \<noteq> upload_name u"
    and run: "ingest_upload env p fs sv [] u = Some (Indexed n, t)"
  shows "t \<noteq> [] \<and>
         (\<forall>r \<in> set t.
            source (row_meta r) = upload_name u \<and>
            row_id r = generate_chunk_id (md5_hex env) (path_name (tmp_path u)) (chunk_index (row_meta r)) \<and>
            row_id r \<noteq> generate_chunk_id (md5_hex env) (source (row_meta r)) (chunk_index (row_meta r))) \<and>
         \<not> id_invariant (md5_hex env) t"
proof -
  from run obtain chunks where pf: "process_file env p fs (tmp_path u) = Some (Inr chunks)"
    and ne: "chunks \<noteq> []"
    and add: "add_documents sv [] (map (set_source (upload_name u)) chunks) = (None, t)"
    by (auto simp add: ingest_upload_def split: option.splits sum.splits if_splits prod.splits)
  from add have loop: "add_loop sv [] (map (set_source (upload_name u)) chunks) = Inr t"
    by (auto simp add: add_documents_def split: if_splits sum.splits)
  from add_loop_rows [OF loop] have
    ids: "row_id ` set t = chunk_id ` set (map (set_source (upload_name u)) chunks)"
    and rows: "\<forall>r \<in> set t. \<exists>c \<in> set (map (set_source (upload_name u)) chunks). \<exists>emb. r = chunk_row c emb"
    by auto
  from ne ids have nonempty: "t \<noteq> []" by auto
  have each: "source (row_meta r) = upload_name u \<and>
            row_id r = generate_chunk_id (md5_hex env) (path_name (tmp_path u)) (chunk_index (row_meta r)) \<and>
            row_id r \<noteq> generate_chunk_id (md5_hex env) (source (row_meta r)) (chunk_index (row_meta r))"
    if "r \<in> set t" for r
  proof -
    from rows that obtain c emb where c: "c \<in> set chunks"
      and r: "r = chunk_row (set_source (upload_name u) c) emb" by auto
    from process_file_derived_ids [OF pf] c
    have d: "chunk_id c = generate_chunk_id (md5_hex env) (path_name (tmp_path u)) (chunk_index (meta c))"
      by (simp add: derived_id_def)
    have src: "source (row_meta r) = upload_name u"
      and idx: "chunk_index (row_meta r) = chunk_index (meta c)"
      and rid: "row_id r = chunk_id c"
      by (simp_all add: r chunk_row_def set_source_def)
    have "generate_chunk_id (md5_hex env) (path_name (tmp_path u)) (chunk_index (meta c)) \<noteq>
          generate_chunk_id (md5_hex env) (upload_name u) (chunk_index (meta c))"
    proof
      assume "generate_chunk_id (md5_hex env) (path_name (tmp_path u)) (chunk_index (meta c)) =
              generate_chunk_id (md5_hex env) (upload_name u) (chunk_index (meta c))"
      then have "md5_hex env (chunk_key (path_name (tmp_path u)) (chunk_index (meta c))) =
                 md5_hex env (chunk_key (upload_name u) (chunk_index (meta c)))"
        by (simp add: generate_chunk_id_def)
      from inj_onD [OF inj this]
      have "chunk_key (path_name (tmp_path u)) (chunk_index (meta c)) =
            chunk_key (upload_name u) (chunk_index (meta c))" by blast
      from chunk_key_inj [OF this] names show False by simp
    qed
    with src idx rid d show ?thesis by simp
  qed
  from nonempty obtain r where r: "r \<in> set t" by (cases t) auto
  from each [OF r] have "row_id r \<noteq>
      generate_chunk_id (md5_hex env) (source (row_meta r)) (chunk_index (row_meta r))" by blast
  with r have "\<not> id_invariant (md5_hex env) t" unfolding id_invariant_def by blast
  with nonempty each show ?thesis by blast
qed

theorem ingested_rows_keep_temporary_id_witness:
  "inj_on (md5_hex char_env)
     (range (chunk_key (path_name (tmp_path doc_upload))) \<union>
      range (chunk_key (upload_name doc_upload))) \<and>
   path_name (tmp_path doc_upload) \<noteq> upload_name doc_upload \<and>
   ingest_upload char_env spec_processor demo_files demo_services [] doc_upload =
     Some (Indexed 1,
       [\<lparr>row_id = ''tmpk3x9_doc.txt_0'', row_content = ''hello'',
          row_meta = \<lparr>source = ''doc.txt'', chunk_index = 0,
                       processed_date = ''2024-01-01T00:00:00'', token_count = 5\<rparr>,
          embedding = 5\<rparr>]) \<and>
   generate_chunk_id (md5_hex char_env) ''doc.txt'' 0 = ''doc.txt_0'' \<and>
   \<not> id_invariant (md5_hex char_env)
       [\<lparr>row_id = ''tmpk3x9_doc.txt_0'', row_content = ''hello'',
          row_meta = \<lparr>source = ''doc.txt'', chunk_index = 0,
                       processed_date = ''2024-01-01T00:00:00'', token_count = 5\<rparr>,
          embedding = (5::int)\<rparr>]"
proof -
  have i: "inj_on (md5_hex char_env)
     (range (chunk_key (path_name (tmp_path doc_upload))) \<union>
      range (chunk_key (upload_name doc_upload)))" by (simp add: char_env_def)
  have n: "path_name (tmp_path doc_upload) \<noteq> upload_name doc_upload"
    by (simp add: doc_upload_def path_name_def path_parts_def)
  have k: "generate_chunk_id (md5_hex char_env) ''doc.txt'' 0 = ''doc.txt_0''"
    by (simp add: char_env_def generate_chunk_id_def chunk_key_def str_int_def str_nat.simps
        digit_char_def)
  from ingested_rows_keep_temporary_id [OF i n demo_ingest_doc] i n k demo_ingest_doc
  show ?thesis by blast
qed

end
